theory Spec2Isabelle
  imports Complex_Main
begin

section \<open>JavaScript values used by HandlerRenderCreateJS\<close>

text \<open>
  Numbers are modelled over the reals (no rounding, no infinities). A number that may be
  \<open>undefined\<close> (an absent property) or \<open>NaN\<close> is a \<open>real option\<close>: \<open>None\<close> stands for
  \<open>undefined\<close>, which coerces to \<open>NaN\<close> in arithmetic and makes every comparison false.
\<close>

type_synonym jsnum = "real option"

fun js_add :: "jsnum \<Rightarrow> jsnum \<Rightarrow> jsnum" where
  "js_add (Some a) (Some b) = Some (a + b)"
| "js_add _ _ = None"

fun js_ge :: "jsnum \<Rightarrow> jsnum \<Rightarrow> bool" where
  "js_ge (Some a) (Some b) = (a \<ge> b)"
| "js_ge _ _ = False"

fun js_le :: "jsnum \<Rightarrow> jsnum \<Rightarrow> bool" where
  "js_le (Some a) (Some b) = (a \<le> b)"
| "js_le _ _ = False"

fun js_gt0 :: "jsnum \<Rightarrow> bool" where
  "js_gt0 (Some a) = (a > 0)"
| "js_gt0 None = False"

text \<open>Truthiness of a number: \<open>undefined\<close>, \<open>NaN\<close> and \<open>0\<close> are falsy.\<close>

fun truthy :: "jsnum \<Rightarrow> bool" where
  "truthy (Some a) = (a \<noteq> 0)"
| "truthy None = False"

text \<open>
  Values stored in the render message: a number, or a reference to a stage (stages are
  told apart by an identifier), or anything else a contributor puts there.
\<close>

datatype jsval = JNum real | JStage nat | JOther string

text \<open>
  An object is its list of own properties in insertion order, with distinct keys.
  \<open>obj_put\<close> is the assignment \<open>o[k] = v\<close>, \<open>obj_del\<close> is \<open>delete o[k]\<close>,
  \<open>obj_get\<close> is the read \<open>o[k]\<close> (\<open>None\<close> for \<open>undefined\<close>).
\<close>

type_synonym jsobject = "(string \<times> jsval) list"

fun obj_put :: "string \<Rightarrow> jsval \<Rightarrow> jsobject \<Rightarrow> jsobject" where
  "obj_put k v [] = [(k, v)]"
| "obj_put k v ((k', v') # ps) = (if k' = k then (k, v) # ps else (k', v') # obj_put k v ps)"

fun obj_del :: "string \<Rightarrow> jsobject \<Rightarrow> jsobject" where
  "obj_del k [] = []"
| "obj_del k ((k', v') # ps) = (if k' = k then obj_del k ps else (k', v') # obj_del k ps)"

definition obj_get :: "jsobject \<Rightarrow> string \<Rightarrow> jsval option" where
  "obj_get ob k = map_of ob k"

definition obj_keys :: "jsobject \<Rightarrow> string list" where
  "obj_keys ob = map fst ob"

section \<open>The data the handler works on\<close>

record rectangle =
  b_x :: real
  b_y :: real
  b_width :: real
  b_height :: real

text \<open>
  A display object of the stage. \<open>ch_bounds\<close> is what \<open>getTransformedBounds()\<close> returns
  (\<open>None\<close> for \<open>null\<close>).
\<close>

record display_object =
  ch_z :: real
  ch_hidden :: bool
  ch_visible :: bool
  ch_paused :: bool
  ch_name :: string
  ch_bounds :: "rectangle option"

record stage_t =
  stage_id :: nat
  children :: "display_object list"
  reorder :: bool
  scaleX :: real
  scaleY :: real
  autoClear :: bool

text \<open>
  The camera object. The constructor creates it with the properties \<open>left\<close>, \<open>top\<close>,
  \<open>width\<close> and \<open>height\<close>; \<open>x\<close> and \<open>y\<close> exist only once \<open>camera-update\<close> has written
  them, so they are optional.
\<close>

record camera_t =
  cam_left :: real
  cam_top :: real
  cam_x :: jsnum
  cam_y :: jsnum
  cam_width :: real
  cam_height :: real

text \<open>A stage pointer event: \<open>event.stageX\<close>, \<open>event.stageY\<close> and what the move handler reads
  of \<open>event.nativeEvent\<close> (\<open>which\<close> or \<open>touches\<close> truthy).\<close>

record stage_event =
  stageX :: real
  stageY :: real
  engaged :: bool

text \<open>The closure of \<open>setupInput\<close>: its flags and the variables \<open>x\<close>, \<open>y\<close>,
  \<open>originalEvent\<close>; \<open>moveMouse\<close> holds the event captured by the follow callback.\<close>

record input_t =
  triggerOnAllMovement :: bool
  cameraMovementMovesMouse :: bool
  in_x :: jsnum
  in_y :: jsnum
  originalEvent :: "stage_event option"
  moveMouse :: "stage_event option"

record handler =
  ctype :: string
  stage :: "stage_t option"
  canvas :: bool
  camera :: camera_t
  renderMessage :: jsobject
  handleChildren :: bool
  extraContent :: "jsobject option"
  paused :: jsnum
  additionListener :: bool
  input :: "input_t option"

text \<open>
  What lies outside the component: \<open>window.devicePixelRatio\<close>, the user agent test
  \<open>android4\<close>, and whether the owner has \<open>triggerEventOnChildren\<close>.
\<close>

record env =
  devicePixelRatio :: jsnum
  android4 :: bool
  canBroadcast :: bool

text \<open>\<open>dpr = window.devicePixelRatio || 1\<close>\<close>

definition dpr :: "env \<Rightarrow> real" where
  "dpr e = (case devicePixelRatio e of None \<Rightarrow> 1 | Some d \<Rightarrow> if d = 0 then 1 else d)"

text \<open>What a handler does to the outside world, in the order it does it.\<close>

record pick =
  pk_x :: jsnum
  pk_y :: jsnum

datatype action =
    HandleRender jsobject
  | HandleRenderAddition jsobject
  | HandleRenderLoad "nat option"
  | StageSortChildren
  | TimeElapsed string
  | StageUpdate
  | CanvasOpacity
  | OwnerTrigger string pick
  | TypeError

text \<open>The two actions of the dispatch step.\<close>

fun is_dispatch :: "action \<Rightarrow> bool" where
  "is_dispatch (HandleRender _) = True"
| "is_dispatch (HandleRenderAddition _) = True"
| "is_dispatch _ = False"

section \<open>The constructor and the simple events\<close>

text \<open>
  The constructor, given the stage it creates (identified by \<open>sid\<close>), the component type
  the framework assigns, and the \<open>acceptInput\<close> flags when input is set up.
\<close>

definition new_stage :: "nat \<Rightarrow> bool \<Rightarrow> stage_t" where
  "new_stage sid ac = \<lparr>stage_id = sid, children = [], reorder = False,
     scaleX = 1, scaleY = 1, autoClear = ac\<rparr>"

definition constructor :: "string \<Rightarrow> nat \<Rightarrow> bool \<Rightarrow> (bool \<times> bool) option \<Rightarrow> handler" where
  "constructor ty sid ac inp =
     \<lparr>ctype = ty,
      stage = Some (new_stage sid ac),
      canvas = True,
      camera = \<lparr>cam_left = 0, cam_top = 0, cam_x = None, cam_y = None,
                 cam_width = 0, cam_height = 0\<rparr>,
      renderMessage = [(''delta'', JNum 0), (''stage'', JStage sid)],
      handleChildren = True,
      extraContent = None,
      paused = None,
      additionListener = False,
      input = (case inp of None \<Rightarrow> None
               | Some (mv, cm) \<Rightarrow> Some \<lparr>triggerOnAllMovement = mv, cameraMovementMovesMouse = cm,
                    in_x = Some 0, in_y = Some 0, originalEvent = None, moveMouse = None\<rparr>)\<rparr>"

text \<open>\<open>pause-render\<close>: \<open>resp && resp.time\<close> is truthy exactly for a time that is a
  nonzero number; \<open>None\<close> is a request without \<open>resp\<close> or without \<open>time\<close>.\<close>

definition pause_render :: "jsnum \<Rightarrow> handler \<Rightarrow> handler" where
  "pause_render t h = (if truthy t then h\<lparr>paused := t\<rparr> else h\<lparr>paused := Some (- 1)\<rparr>)"

definition unpause_render :: "handler \<Rightarrow> handler" where
  "unpause_render h = h\<lparr>paused := Some 0\<rparr>"

text \<open>The countdown at the start of \<open>tick\<close>.\<close>

definition tick_pause :: "real \<Rightarrow> jsnum \<Rightarrow> jsnum" where
  "tick_pause delta p =
     (if js_gt0 p then
        (let p' = js_add p (Some (- delta)) in
         if (case p' of Some t \<Rightarrow> t < 0 | None \<Rightarrow> False) then Some 0 else p')
      else p)"

section \<open>The tick\<close>

text \<open>\<open>for (i in extraContent) message[i] = extraContent[i]\<close>, over the own properties of
  \<open>extraContent\<close> in their order.\<close>

fun merge_into :: "jsobject \<Rightarrow> jsobject \<Rightarrow> jsobject" where
  "merge_into [] m = m"
| "merge_into ((k, v) # es) m = merge_into es (obj_put k v m)"

text \<open>\<open>for (i in extraContent) { delete extraContent[i]; delete message[i]; }\<close>, over the
  keys \<open>extraContent\<close> has when the loop starts.\<close>

fun delete_merged :: "string list \<Rightarrow> jsobject \<Rightarrow> jsobject \<Rightarrow> jsobject \<times> jsobject" where
  "delete_merged [] ex m = (ex, m)"
| "delete_merged (k # ks) ex m = delete_merged ks (obj_del k ex) (obj_del k m)"

text \<open>The listener of \<open>handle-render-addition\<close> that \<open>load\<close> registers on the primary.\<close>

definition handle_render_addition :: "jsobject \<Rightarrow> handler \<Rightarrow> handler" where
  "handle_render_addition addition h =
     h\<lparr>extraContent :=
         Some (merge_into addition (case extraContent h of None \<Rightarrow> [] | Some ex \<Rightarrow> ex))\<rparr>"

text \<open>
  The dispatch part of \<open>tick\<close>. What the children do with \<open>handle-render\<close> is outside the
  component: \<open>react\<close> is their effect on this handler's display list.
\<close>

definition tick_dispatch ::
  "env \<Rightarrow> (jsobject \<Rightarrow> stage_t \<Rightarrow> stage_t) \<Rightarrow> handler \<Rightarrow> handler \<times> action list" where
  "tick_dispatch e react h =
     (if handleChildren h then
        (let m1 = (case extraContent h of None \<Rightarrow> renderMessage h
                   | Some ex \<Rightarrow> merge_into ex (renderMessage h));
             st1 = (if canBroadcast e then map_option (react m1) (stage h) else stage h);
             acts = (if canBroadcast e then [HandleRender m1] else [])
         in case extraContent h of
              None \<Rightarrow> (h\<lparr>stage := st1, renderMessage := m1\<rparr>, acts)
            | Some ex \<Rightarrow>
                (case delete_merged (obj_keys ex) ex m1 of
                   (ex', m2) \<Rightarrow>
                     (h\<lparr>stage := st1, renderMessage := m2, extraContent := Some ex'\<rparr>, acts)))
      else (h, [HandleRenderAddition (renderMessage h)]))"

text \<open>The closed-interval test of the cull pass, with the comparisons of JavaScript.\<close>

definition overlaps :: "rectangle \<Rightarrow> camera_t \<Rightarrow> bool" where
  "overlaps b cam =
     (js_ge (Some (b_x b + b_width b)) (cam_x cam)
      \<and> js_le (Some (b_x b)) (js_add (cam_x cam) (Some (cam_width cam)))
      \<and> js_ge (Some (b_y b + b_height b)) (cam_y cam)
      \<and> js_le (Some (b_y b)) (js_add (cam_y cam) (Some (cam_height cam))))"

definition set_visibility :: "camera_t \<Rightarrow> display_object \<Rightarrow> display_object" where
  "set_visibility cam c =
     (if ch_hidden c then
        (if ch_visible c then c\<lparr>ch_visible := False\<rparr> else c)
      else if ch_name c \<noteq> ''entity-managed'' then
        (if (case ch_bounds c of None \<Rightarrow> True | Some b \<Rightarrow> overlaps b cam) then
           (if \<not> ch_visible c then c\<lparr>ch_visible := True\<rparr> else c)
         else
           (if ch_visible c then c\<lparr>ch_visible := False\<rparr> else c))
      else c)"

definition set_paused :: "jsnum \<Rightarrow> display_object \<Rightarrow> display_object" where
  "set_paused p c =
     (if ch_visible c then
        (if ch_paused c \<and> \<not> truthy p then c\<lparr>ch_paused := False\<rparr>
         else if truthy p then c\<lparr>ch_paused := True\<rparr>
         else c)
      else c)"

text \<open>\<open>for (x = children.length - 1; x > -1; x--)\<close>: \<open>child_loop cam p n cs\<close> runs the
  iterations \<open>x = n - 1\<close> down to \<open>0\<close>.\<close>

fun child_loop :: "camera_t \<Rightarrow> jsnum \<Rightarrow> nat \<Rightarrow> display_object list \<Rightarrow> display_object list" where
  "child_loop cam p 0 cs = cs"
| "child_loop cam p (Suc x) cs =
     child_loop cam p x (cs[x := set_paused p (set_visibility cam (cs ! x))])"

definition cull_pass :: "camera_t \<Rightarrow> jsnum \<Rightarrow> display_object list \<Rightarrow> display_object list" where
  "cull_pass cam p cs = child_loop cam p (length cs) cs"

text \<open>The comparator \<open>sort\<close> of \<open>tick\<close>.\<close>

definition sort_fn :: "display_object \<Rightarrow> display_object \<Rightarrow> real" where
  "sort_fn a b = ch_z a - ch_z b"

text \<open>
  Modelled from the spec: \<open>stage.sortChildren\<close> belongs to the display-list library and is
  not in the repository. The spec has it "stably sort all stage children by ascending
  depth key; tie-break is insertion order": \<open>sortChildren\<close> is a stable insertion sort,
  and \<open>insert_by\<close> puts \<open>a\<close> after \<open>b\<close> exactly when the comparator is positive on
  \<open>(a, b)\<close>.
\<close>

fun insert_by :: "('a \<Rightarrow> 'a \<Rightarrow> real) \<Rightarrow> 'a \<Rightarrow> 'a list \<Rightarrow> 'a list" where
  "insert_by cmp a [] = [a]"
| "insert_by cmp a (b # bs) = (if cmp a b > 0 then b # insert_by cmp a bs else a # b # bs)"

definition sortChildren :: "('a \<Rightarrow> 'a \<Rightarrow> real) \<Rightarrow> 'a list \<Rightarrow> 'a list" where
  "sortChildren cmp cs = foldr (insert_by cmp) cs []"

text \<open>The part of \<open>tick\<close> under \<open>if (this.stage)\<close>.\<close>

definition tick_stage :: "env \<Rightarrow> handler \<Rightarrow> stage_t \<Rightarrow> stage_t \<times> action list" where
  "tick_stage e h st =
     (let st1 = st\<lparr>children := cull_pass (camera h) (paused h) (children st)\<rparr>;
          st2 = (if reorder st1
                 then st1\<lparr>reorder := False, children := sortChildren sort_fn (children st1)\<rparr>
                 else st1)
      in (st2,
          (if reorder st1 then [StageSortChildren] else [])
          @ [TimeElapsed ''Render-Prep'', StageUpdate]
          @ (if android4 e \<and> autoClear st2 then [CanvasOpacity] else [])
          @ [TimeElapsed ''Render'']))"

text \<open>The first statements of \<open>tick\<close>: \<open>message.delta = resp.delta\<close> and the countdown.\<close>

definition tick_begin :: "real \<Rightarrow> handler \<Rightarrow> handler" where
  "tick_begin delta h =
     h\<lparr>renderMessage := obj_put ''delta'' (JNum delta) (renderMessage h),
       paused := tick_pause delta (paused h)\<rparr>"

definition tick ::
  "env \<Rightarrow> (jsobject \<Rightarrow> stage_t \<Rightarrow> stage_t) \<Rightarrow> real \<Rightarrow> handler \<Rightarrow> handler \<times> action list" where
  "tick e react delta h =
     (case tick_dispatch e react (tick_begin delta h) of
        (h1, acts) \<Rightarrow>
          (case stage h1 of
             None \<Rightarrow> (h1, acts)
           | Some st \<Rightarrow>
               (case tick_stage e h1 st of
                  (st', acts') \<Rightarrow> (h1\<lparr>stage := Some st'\<rparr>, acts @ acts'))))"

section \<open>Pointer translation and the public query\<close>

text \<open>
  \<open>setXY\<close> writes the closure variables. Reading \<open>self.stage.scaleX\<close> of an absent stage
  throws: \<open>Inl\<close> is the closure as the throw leaves it.
\<close>

definition setXY :: "env \<Rightarrow> handler \<Rightarrow> stage_event \<Rightarrow> input_t \<Rightarrow> input_t + input_t" where
  "setXY e h ev i =
     (case stage h of
        None \<Rightarrow> Inl (i\<lparr>originalEvent := Some ev\<rparr>)
      | Some st \<Rightarrow>
          Inr (i\<lparr>originalEvent := Some ev,
                 in_x := js_add (Some ((stageX ev / dpr e) / scaleX st)) (cam_x (camera h)),
                 in_y := js_add (Some ((stageY ev / dpr e) / scaleY st)) (cam_y (camera h))\<rparr>))"

text \<open>The stage listeners exist only when \<open>setupInput\<close> ran; without it no pointer event
  reaches the component.\<close>

definition mousedown :: "env \<Rightarrow> stage_event \<Rightarrow> handler \<Rightarrow> handler \<times> action list" where
  "mousedown e ev h =
     (case input h of
        None \<Rightarrow> (h, [])
      | Some i \<Rightarrow>
          (case setXY e h ev i of
             Inl i' \<Rightarrow> (h\<lparr>input := Some i'\<rparr>, [TypeError])
           | Inr i' \<Rightarrow>
               (h\<lparr>input := Some (if cameraMovementMovesMouse i'
                                  then i'\<lparr>moveMouse := Some ev\<rparr> else i')\<rparr>,
                [OwnerTrigger ''mousedown'' \<lparr>pk_x = in_x i', pk_y = in_y i'\<rparr>])))"

definition mouseup :: "env \<Rightarrow> stage_event \<Rightarrow> handler \<Rightarrow> handler \<times> action list" where
  "mouseup e ev h =
     (case input h of
        None \<Rightarrow> (h, [])
      | Some i \<Rightarrow>
          (case setXY e h ev i of
             Inl i' \<Rightarrow> (h\<lparr>input := Some i'\<rparr>, [TypeError])
           | Inr i' \<Rightarrow>
               (h\<lparr>input := Some (if cameraMovementMovesMouse i'
                                  then i'\<lparr>moveMouse := None\<rparr> else i')\<rparr>,
                [OwnerTrigger ''mouseup'' \<lparr>pk_x = in_x i', pk_y = in_y i'\<rparr>])))"

definition mousemove :: "env \<Rightarrow> stage_event \<Rightarrow> handler \<Rightarrow> handler \<times> action list" where
  "mousemove e ev h =
     (case input h of
        None \<Rightarrow> (h, [])
      | Some i \<Rightarrow>
          (case setXY e h ev i of
             Inl i' \<Rightarrow> (h\<lparr>input := Some i'\<rparr>, [TypeError])
           | Inr i' \<Rightarrow>
               (h\<lparr>input := Some i'\<rparr>,
                if triggerOnAllMovement i' \<or> engaged ev
                then [OwnerTrigger ''mousemove'' \<lparr>pk_x = in_x i', pk_y = in_y i'\<rparr>] else [])))"

text \<open>The follow callback \<open>self.moveMouse\<close> that \<open>mousedown\<close> installs.\<close>

definition follow :: "env \<Rightarrow> handler \<Rightarrow> handler \<times> action list" where
  "follow e h =
     (case input h of
        None \<Rightarrow> (h, [])
      | Some i \<Rightarrow>
          (case (moveMouse i, originalEvent i) of
             (Some _, Some oe) \<Rightarrow>
               (case setXY e h oe i of
                  Inl i' \<Rightarrow> (h\<lparr>input := Some i'\<rparr>, [TypeError])
                | Inr i' \<Rightarrow>
                    (h\<lparr>input := Some i'\<rparr>,
                     [OwnerTrigger ''mousemove'' \<lparr>pk_x = in_x i', pk_y = in_y i'\<rparr>]))
           | _ \<Rightarrow> (h, [])))"

record camera_info =
  viewportLeft :: real
  viewportTop :: real
  viewportWidth :: real
  viewportHeight :: real
  ci_scaleX :: real
  ci_scaleY :: real

text \<open>
  \<open>camera-update\<close>. The four camera fields are written first; \<open>this.canvas.offsetWidth\<close>
  and \<open>this.stage.setTransform\<close> throw once \<open>destroy\<close> has run. Of \<open>setTransform\<close> only
  the scale is kept, which is what the pointer translation reads.
\<close>

definition camera_update :: "env \<Rightarrow> camera_info \<Rightarrow> handler \<Rightarrow> handler \<times> action list" where
  "camera_update e ci h =
     (let h1 = h\<lparr>camera := (camera h)\<lparr>cam_x := Some (viewportLeft ci),
                                        cam_y := Some (viewportTop ci),
                                        cam_width := viewportWidth ci,
                                        cam_height := viewportHeight ci\<rparr>\<rparr>
      in if \<not> canvas h1 then (h1, [TypeError])
         else (case stage h1 of
                 None \<Rightarrow> (h1, [TypeError])
               | Some st \<Rightarrow>
                   follow e (h1\<lparr>stage := Some (st\<lparr>scaleX := ci_scaleX ci * dpr e,
                                                   scaleY := ci_scaleY ci * dpr e\<rparr>)\<rparr>)))"

text \<open>\<open>destroy\<close>: the stage listeners are removed, the stage and the canvas are dropped.\<close>

definition destroy :: "handler \<Rightarrow> handler" where
  "destroy h = h\<lparr>input := None, stage := None, canvas := False\<rparr>"

text \<open>\<open>child-entity-added\<close> hands the stage (or \<open>undefined\<close>) to the new entity.\<close>

definition child_entity_added :: "handler \<Rightarrow> action list" where
  "child_entity_added h = [HandleRenderLoad (map_option stage_id (stage h))]"

record point =
  pt_x :: real
  pt_y :: real

text \<open>\<open>getWorldPointFromScreen\<close>; \<open>None\<close> is the throw on an absent stage.\<close>

definition getWorldPointFromScreen :: "env \<Rightarrow> handler \<Rightarrow> point \<Rightarrow> pick option" where
  "getWorldPointFromScreen e h sp =
     (case stage h of
        None \<Rightarrow> None
      | Some st \<Rightarrow>
          Some \<lparr>pk_x = js_add (Some ((pt_x sp * dpr e) / scaleX st)) (cam_x (camera h)),
                pk_y = js_add (Some ((pt_y sp * dpr e) / scaleY st)) (cam_y (camera h))\<rparr>)"

section \<open>Several render handlers on one owner\<close>

text \<open>
  \<open>owner.components\<close> is the list of the owner's render handlers in attachment order
  (a component of another kind whose type lacks the prefix never changes the variable \<open>last\<close> (here \<open>lst\<close>) and is
  left out). \<open>find_last k i cs lst\<close> is the loop of \<open>load\<close> for the component at position
  \<open>k\<close>, at index \<open>i\<close> with \<open>cs\<close> still to visit.
\<close>

fun find_last :: "nat \<Rightarrow> nat \<Rightarrow> handler list \<Rightarrow> nat option \<Rightarrow> nat option" where
  "find_last k i [] lst = lst"
| "find_last k i (c # cs) lst =
     find_last k (Suc i) cs
       (if i = k \<or> take 14 (ctype c) = ''handler-render'' then Some i else lst)"

definition load :: "nat \<Rightarrow> handler list \<Rightarrow> handler list" where
  "load k hs =
     (if k < length hs then
        (if find_last k 0 hs None \<noteq> Some k
         then hs[k := (hs ! k)\<lparr>handleChildren := False\<rparr>]
         else hs[k := (hs ! k)\<lparr>additionListener := True\<rparr>])
      else hs)"

text \<open>\<open>owner.triggerEvent('handle-render-addition', message)\<close> reaches every component that
  registered the listener.\<close>

definition deliver_addition :: "jsobject \<Rightarrow> handler list \<Rightarrow> handler list" where
  "deliver_addition a hs =
     map (\<lambda>h. if additionListener h then handle_render_addition a h else h) hs"

fun deliver_actions :: "action list \<Rightarrow> handler list \<Rightarrow> handler list" where
  "deliver_actions [] hs = hs"
| "deliver_actions (HandleRenderAddition a # as) hs = deliver_actions as (deliver_addition a hs)"
| "deliver_actions (_ # as) hs = deliver_actions as hs"

text \<open>
  One tick of the owner: the \<open>tick\<close> listeners of the components run one after the other,
  in the order (a list of positions in \<open>owner.components\<close>) in which the owner calls
  them; the owner's own dispatch is not part of the component, so the order is a
  parameter. The listener of an addition runs inside the tick that triggers it and
  touches only the handlers that registered it, none of which reads it again in that
  tick, so it is applied when that tick returns. The result pairs each position with
  what its component did.
\<close>

fun owner_tick ::
  "env \<Rightarrow> (jsobject \<Rightarrow> stage_t \<Rightarrow> stage_t) \<Rightarrow> real \<Rightarrow> nat list \<Rightarrow> handler list
     \<Rightarrow> handler list \<times> (nat \<times> action list) list" where
  "owner_tick e react delta [] hs = (hs, [])"
| "owner_tick e react delta (i # is) hs =
     (if i < length hs then
        (case tick e react delta (hs ! i) of
           (h', acts) \<Rightarrow>
             (case owner_tick e react delta is (deliver_actions acts (hs[i := h'])) of
                (hs', lg) \<Rightarrow> (hs', (i, acts) # lg)))
      else owner_tick e react delta is hs)"

section \<open>Runs of one handler\<close>

text \<open>
  The events one handler receives. \<open>External f\<close> is a change \<open>f\<close> that code holding the
  stage reference (an entity that got it with \<open>handle-render-load\<close>) makes to the display
  list between two events.
\<close>

datatype event =
    Tick real
  | PauseRender jsnum
  | UnpauseRender
  | CameraUpdate camera_info
  | Addition jsobject
  | MouseDown stage_event
  | MouseUp stage_event
  | MouseMove stage_event
  | External "stage_t \<Rightarrow> stage_t"
  | Destroy


fun step :: "env \<Rightarrow> (jsobject \<Rightarrow> stage_t \<Rightarrow> stage_t) \<Rightarrow> event \<Rightarrow> handler \<Rightarrow> handler" where
  "step e react (Tick d) h = fst (tick e react d h)"
| "step e react (PauseRender t) h = pause_render t h"
| "step e react UnpauseRender h = unpause_render h"
| "step e react (CameraUpdate ci) h = fst (camera_update e ci h)"
| "step e react (Addition a) h = (if additionListener h then handle_render_addition a h else h)"
| "step e react (MouseDown ev) h = fst (mousedown e ev h)"
| "step e react (MouseUp ev) h = fst (mouseup e ev h)"
| "step e react (MouseMove ev) h = fst (mousemove e ev h)"
| "step e react (External f) h = h\<lparr>stage := map_option f (stage h)\<rparr>"
| "step e react Destroy h = destroy h"

definition run :: "env \<Rightarrow> (jsobject \<Rightarrow> stage_t \<Rightarrow> stage_t) \<Rightarrow> event list \<Rightarrow> handler \<Rightarrow> handler" where
  "run e react evs h = fold (step e react) evs h"

section \<open>Concrete scenes\<close>

text \<open>
  The scenes the closed theorems below are evaluated on. Their handlers get the component
  type \<open>handler-render-createjs\<close>, which has the prefix \<open>load\<close> looks for.
\<close>

text \<open>Children that leave the display list alone.\<close>

definition no_reaction :: "jsobject \<Rightarrow> stage_t \<Rightarrow> stage_t" where
  "no_reaction m st = st"

definition plain_env :: env where
  "plain_env = \<lparr>devicePixelRatio = Some 1, android4 = False, canBroadcast = True\<rparr>"

definition retina_env :: env where
  "retina_env = \<lparr>devicePixelRatio = Some 2, android4 = False, canBroadcast = True\<rparr>"

text \<open>A handler that accepts input, after a camera update that puts the camera origin at
  \<open>(0, 0)\<close> and the stage scale at \<open>1\<close> on a display with device pixel ratio \<open>2\<close>.\<close>

definition retina_handler :: handler where
  "retina_handler =
     fst (camera_update retina_env
            \<lparr>viewportLeft = 0, viewportTop = 0, viewportWidth = 100, viewportHeight = 100,
             ci_scaleX = 1 / 2, ci_scaleY = 1 / 2\<rparr>
            (constructor ''handler-render-createjs'' 1 False (Some (False, False))))"

text \<open>A camera of size \<open>100\<close> by \<open>100\<close> whose left edge is at \<open>x0\<close>, at scale \<open>1\<close>.\<close>

definition camera_at :: "real \<Rightarrow> camera_info" where
  "camera_at x0 = \<lparr>viewportLeft = x0, viewportTop = 0, viewportWidth = 100,
     viewportHeight = 100, ci_scaleX = 1, ci_scaleY = 1\<rparr>"

text \<open>A handler that accepts input, with that camera at \<open>0\<close>, on a display with device pixel ratio \<open>1\<close>.\<close>

definition plain_handler :: handler where
  "plain_handler =
     fst (camera_update plain_env (camera_at 0)
            (constructor ''handler-render-createjs'' 1 False (Some (False, False))))"

definition press_100_50 :: stage_event where
  "press_100_50 = \<lparr>stageX = 100, stageY = 50, engaged = True\<rparr>"

definition box_150 :: display_object where
  "box_150 = \<lparr>ch_z = 0, ch_hidden = False, ch_visible = True, ch_paused = False,
     ch_name = ''sprite'', ch_bounds = Some \<lparr>b_x = 150, b_y = 0, b_width = 10, b_height = 10\<rparr>\<rparr>"



definition add_child :: "display_object \<Rightarrow> stage_t \<Rightarrow> stage_t" where
  "add_child c st = st\<lparr>children := children st @ [c], reorder := True\<rparr>"

text \<open>Two render handlers on one owner, both loaded: position \<open>0\<close> was attached first.\<close>

definition two_handlers :: "handler list" where
  "two_handlers =
     load 1 (load 0 [constructor ''handler-render-createjs'' 1 False None,
                     constructor ''handler-render-createjs'' 2 False None])"

text \<open>The two of them by position.\<close>

definition first_attached :: handler where
  "first_attached = two_handlers ! 0"

definition later_attached :: handler where
  "later_attached = two_handlers ! 1"

text \<open>A handler with one child on its stage, after the events \<open>evs\<close>.\<close>

definition scene :: "display_object \<Rightarrow> event list \<Rightarrow> handler" where
  "scene c evs =
     run plain_env no_reaction (External (add_child c) # evs)
       (constructor ''handler-render-createjs'' 1 False None)"

text \<open>Three children added in the order \<open>a\<close>, \<open>b\<close>, \<open>c\<close>, where \<open>a\<close> and \<open>c\<close> have the same depth.\<close>

definition box_at :: "real \<Rightarrow> string \<Rightarrow> display_object" where
  "box_at zz nm = \<lparr>ch_z = zz, ch_hidden = False, ch_visible = True, ch_paused = False,
     ch_name = nm, ch_bounds = None\<rparr>"

definition three_boxes :: "stage_t \<Rightarrow> stage_t" where
  "three_boxes st = add_child (box_at 1 ''c'') (add_child (box_at 2 ''b'') (add_child (box_at 1 ''a'') st))"

definition sort_scene :: handler where
  "sort_scene = run plain_env no_reaction [External three_boxes]
     (constructor ''handler-render-createjs'' 1 False None)"


section \<open>Facts about the model\<close>

lemma tick_dispatch_keeps:
  "paused (fst (tick_dispatch e react h)) = paused h"
  "camera (fst (tick_dispatch e react h)) = camera h"
  "handleChildren (fst (tick_dispatch e react h)) = handleChildren h"
  "additionListener (fst (tick_dispatch e react h)) = additionListener h"
  by (auto simp: tick_dispatch_def Let_def split: option.splits prod.splits)

lemma tick_keeps:
  "paused (fst (tick e react delta h)) = tick_pause delta (paused h)"
  "camera (fst (tick e react delta h)) = camera h"
  "handleChildren (fst (tick e react delta h)) = handleChildren h"
  "additionListener (fst (tick e react delta h)) = additionListener h"
  using tick_dispatch_keeps[of e react "tick_begin delta h"]
  by (auto simp: tick_def tick_begin_def split: option.splits prod.splits)

lemma pointer_keeps_paused:
  "paused (fst (mousedown e ev h)) = paused h"
  "paused (fst (mouseup e ev h)) = paused h"
  "paused (fst (mousemove e ev h)) = paused h"
  "paused (fst (follow e h)) = paused h"
  by (auto simp: mousedown_def mouseup_def mousemove_def follow_def
           split: option.splits sum.splits prod.splits)


lemma camera_update_keeps_paused: "paused (fst (camera_update e ci h)) = paused h"
  by (auto simp: camera_update_def Let_def pointer_keeps_paused split: option.splits)

lemma tick_pause_positive: "0 < t \<Longrightarrow> tick_pause delta (Some t) = Some (max 0 (t - delta))"
  by (auto simp: tick_pause_def Let_def)

lemma tick_pause_idle: "\<not> js_gt0 p \<Longrightarrow> tick_pause delta p = p"
  by (simp add: tick_pause_def)

lemma tick_pause_ok:
  "(case p of None \<Rightarrow> True | Some t \<Rightarrow> 0 \<le> t \<or> t = - 1) \<Longrightarrow>
   (case tick_pause delta p of None \<Rightarrow> True | Some t \<Rightarrow> 0 \<le> t \<or> t = - 1)"
  by (cases p) (auto simp: tick_pause_def Let_def)

lemma step_pause_ok:
  assumes "case paused h of None \<Rightarrow> True | Some t \<Rightarrow> 0 \<le> t \<or> t = - 1"
      and "\<forall>t. ev = PauseRender (Some t) \<longrightarrow> 0 \<le> t"
  shows "case paused (step e react ev h) of None \<Rightarrow> True | Some t \<Rightarrow> 0 \<le> t \<or> t = - 1"
proof (cases ev)
  case (Tick d)
  then show ?thesis using assms(1) tick_pause_ok[of "paused h" d] by (simp add: tick_keeps)
next
  case (PauseRender t)
  then show ?thesis using assms(2) by (cases t) (auto simp: pause_render_def)
qed (use assms(1) in \<open>auto simp: unpause_render_def camera_update_keeps_paused
       handle_render_addition_def pointer_keeps_paused destroy_def\<close>)

lemma run_pause_ok:
  "(case paused h of None \<Rightarrow> True | Some t \<Rightarrow> 0 \<le> t \<or> t = - 1) \<Longrightarrow>
   (\<forall>ev\<in>set evs. \<forall>t. ev = PauseRender (Some t) \<longrightarrow> 0 \<le> t) \<Longrightarrow>
   (case paused (run e react evs h) of None \<Rightarrow> True | Some t \<Rightarrow> 0 \<le> t \<or> t = - 1)"
proof (induction evs arbitrary: h)
  case Nil
  then show ?case by (simp add: run_def)
next
  case (Cons ev evs)
  have "case paused (step e react ev h) of None \<Rightarrow> True | Some t \<Rightarrow> 0 \<le> t \<or> t = - 1"
    using Cons.prems by (intro step_pause_ok) auto
  then show ?case using Cons.IH[of "step e react ev h"] Cons.prems(2) by (simp add: run_def)
qed

lemma child_loop_map:
  "n \<le> length cs \<Longrightarrow>
   child_loop cam p n cs = map (\<lambda>c. set_paused p (set_visibility cam c)) (take n cs) @ drop n cs"
proof (induction n arbitrary: cs)
  case 0
  then show ?case by simp
next
  case (Suc n)
  then have n: "n < length cs" by simp
  have "child_loop cam p (Suc n) cs =
        child_loop cam p n (cs[n := set_paused p (set_visibility cam (cs ! n))])" by simp
  also have "\<dots> = map (\<lambda>c. set_paused p (set_visibility cam c))
                     (take n (cs[n := set_paused p (set_visibility cam (cs ! n))]))
                   @ drop n (cs[n := set_paused p (set_visibility cam (cs ! n))])"
    using Suc.IH[of "cs[n := set_paused p (set_visibility cam (cs ! n))]"] n by simp
  also have "\<dots> = map (\<lambda>c. set_paused p (set_visibility cam c)) (take (Suc n) cs) @ drop (Suc n) cs"
    using n by (simp add: take_Suc_conv_app_nth upd_conv_take_nth_drop)
  finally show ?case .
qed

lemma cull_pass_map: "cull_pass cam p cs = map (\<lambda>c. set_paused p (set_visibility cam c)) cs"
  by (simp add: cull_pass_def child_loop_map)

lemma insert_by_insort: "insert_by sort_fn a bs = insort_key ch_z a bs"
  by (induction bs) (auto simp: sort_fn_def)

lemma sortChildren_sort_key: "sortChildren sort_fn cs = sort_key ch_z cs"
  by (induction cs) (auto simp: sortChildren_def insert_by_insort)

text \<open>The shape of a tick once the stage test is reached with a stage.\<close>

lemma tick_with_stage:
  assumes "tick_dispatch e react (tick_begin delta h) = (h1, acts1)" and "stage h1 = Some st"
  shows "tick e react delta h =
           (h1\<lparr>stage := Some (fst (tick_stage e h1 st))\<rparr>, acts1 @ snd (tick_stage e h1 st))"
  using assms by (simp add: tick_def split: prod.splits)

lemma tick_stage_children:
  "children (fst (tick_stage e h st)) =
     (if reorder st then sortChildren sort_fn (cull_pass (camera h) (paused h) (children st))
      else cull_pass (camera h) (paused h) (children st))"
  by (simp add: tick_stage_def Let_def)

lemma set_tick_stage_children:
  "set (children (fst (tick_stage e h st))) =
     (\<lambda>c. set_paused (paused h) (set_visibility (camera h) c)) ` set (children st)"
  by (simp add: tick_stage_children sortChildren_sort_key cull_pass_map)

lemma unpaused_child: "\<not> truthy p \<Longrightarrow> ch_visible (set_paused p c) \<Longrightarrow> \<not> ch_paused (set_paused p c)"
  by (auto simp: set_paused_def split: if_splits)

lemma tick_final_children:
  assumes "stage (fst (tick e react delta h)) = Some st'" and "c' \<in> set (children st')"
  shows "\<exists>c. c' = set_paused (tick_pause delta (paused h)) (set_visibility (camera h) c)"
proof -
  obtain h1 acts1 where d: "tick_dispatch e react (tick_begin delta h) = (h1, acts1)"
    by (cases "tick_dispatch e react (tick_begin delta h)")
  have k: "paused h1 = tick_pause delta (paused h)" "camera h1 = camera h"
    using tick_dispatch_keeps(1,2)[of e react "tick_begin delta h"] d by (simp_all add: tick_begin_def)
  show ?thesis
  proof (cases "stage h1")
    case None
    then show ?thesis using assms d by (simp add: tick_def)
  next
    case (Some st)
    then have "st' = fst (tick_stage e h1 st)" using assms(1) tick_with_stage[OF d Some] by simp
    then show ?thesis using assms(2) set_tick_stage_children[of e h1 st] k by auto
  qed
qed

section \<open>The pause countdown\<close>

text \<open>
  C8 (amended). The tick never makes the countdown negative: a positive countdown is
  decremented by the elapsed delta and floored at \<open>0\<close>. On the tick where the delta
  reaches or passes what was left, the countdown is \<open>0\<close>, the handler counts as
  unpaused, and every visible child is unpaused on that same tick. A countdown that is
  not positive (\<open>0\<close>, the marker \<open>-1\<close>, a negative time, or never set) is left alone.
  A pause request whose time passes the test \<open>resp && resp.time\<close> (a number other than
  \<open>0\<close>) sets the countdown to that time, also when the time is negative, and the tick
  then never changes it; a request without a time, or with the time \<open>0\<close>, sets \<open>-1\<close>;
  an unpause request sets \<open>0\<close>. Over every run from the constructor in which no pause
  request carries a negative time, the countdown is unset, \<open>-1\<close>, or not negative.
\<close>

theorem pause_countdown_floor:
  "(paused h = Some t \<and> 0 < t \<longrightarrow>
       paused (fst (tick e react delta h)) = Some (max 0 (t - delta))
     \<and> (t \<le> delta \<longrightarrow>
          paused (fst (tick e react delta h)) = Some 0
        \<and> (\<forall>st'. stage (fst (tick e react delta h)) = Some st' \<longrightarrow>
              (\<forall>c\<in>set (children st'). ch_visible c \<longrightarrow> \<not> ch_paused c))))
   \<and> (\<not> js_gt0 (paused h) \<longrightarrow> paused (fst (tick e react delta h)) = paused h)
   \<and> (truthy tm \<longrightarrow> paused (pause_render tm h) = tm)
   \<and> (\<not> truthy tm \<longrightarrow> paused (pause_render tm h) = Some (- 1))
   \<and> paused (unpause_render h) = Some 0
   \<and> ((\<forall>ev\<in>set evs. \<forall>t'. ev = PauseRender (Some t') \<longrightarrow> 0 \<le> t') \<longrightarrow>
        (case paused (run e react evs (constructor ty sid ac inp)) of
           None \<Rightarrow> True | Some p \<Rightarrow> 0 \<le> p \<or> p = - 1))
   \<and> (tn < 0 \<longrightarrow>
        paused (pause_render (Some tn) h) = Some tn
      \<and> paused (fst (tick e react delta (pause_render (Some tn) h))) = Some tn)"
proof -
  have a: "paused (fst (tick e react delta h)) = Some (max 0 (t - delta))"
    if "paused h = Some t" "0 < t"
    using that by (simp add: tick_keeps tick_pause_positive)
  have b: "\<not> ch_paused c"
    if "paused h = Some t" "0 < t" "t \<le> delta"
       "stage (fst (tick e react delta h)) = Some st'" "c \<in> set (children st')" "ch_visible c"
    for st' c
  proof -
    note asm = that
    have z: "tick_pause delta (paused h) = Some 0"
      using asm(1-3) by (simp add: tick_pause_positive)
    have "\<exists>c0. c = set_paused (Some 0) (set_visibility (camera h) c0)"
      using tick_final_children[OF asm(4,5)] z by simp
    then show ?thesis using asm(6) unpaused_child[of "Some 0"] by auto
  qed
  have c: "paused (fst (tick e react delta h)) = paused h" if "\<not> js_gt0 (paused h)"
    using that by (simp add: tick_keeps tick_pause_idle)
  have d: "case paused (run e react evs (constructor ty sid ac inp)) of
             None \<Rightarrow> True | Some p \<Rightarrow> 0 \<le> p \<or> p = - 1"
    if "\<forall>ev\<in>set evs. \<forall>t'. ev = PauseRender (Some t') \<longrightarrow> 0 \<le> t'"
    using that by (intro run_pause_ok) (simp_all add: constructor_def)
  have n: "paused (pause_render (Some tn) h) = Some tn
         \<and> paused (fst (tick e react delta (pause_render (Some tn) h))) = Some tn"
    if "tn < 0"
    using that by (simp add: tick_keeps pause_render_def tick_pause_def)
  show ?thesis
    using a b c d n by (auto simp: pause_render_def unpause_render_def)
qed

theorem pause_countdown_floor_witness:
  "paused (fst (tick plain_env no_reaction 16
       (pause_render (Some 10) (constructor ''handler-render-createjs'' 1 False None)))) = Some 0
   \<and> paused (fst (tick plain_env no_reaction 16
       (pause_render (Some 40) (constructor ''handler-render-createjs'' 1 False None)))) = Some 24
   \<and> paused (fst (tick plain_env no_reaction 16
       (pause_render None (constructor ''handler-render-createjs'' 1 False None)))) = Some (- 1)
   \<and> paused (run plain_env no_reaction [PauseRender (Some 10), Tick 16]
       (constructor ''handler-render-createjs'' 1 False None)) = Some 0
   \<and> paused (fst (tick plain_env no_reaction 16
       (pause_render (Some (- 5)) (constructor ''handler-render-createjs'' 1 False None))))
       = Some (- 5)"
proof -
  let ?h0 = "constructor ''handler-render-createjs'' 1 False None"
  have p10: "paused (pause_render (Some 10) ?h0) = Some 10"
    and p40: "paused (pause_render (Some 40) ?h0) = Some 40"
    and pn: "paused (pause_render None ?h0) = Some (- 1)"
    by (simp_all add: pause_render_def)
  have 1: "paused (fst (tick plain_env no_reaction 16 (pause_render (Some 10) ?h0))) = Some 0"
    using pause_countdown_floor[of "pause_render (Some 10) ?h0" 10 plain_env no_reaction 16
            "Some 10" "[]" "''a''" 0 False None] p10 by simp
  have 2: "paused (fst (tick plain_env no_reaction 16 (pause_render (Some 40) ?h0))) = Some 24"
    using pause_countdown_floor[of "pause_render (Some 40) ?h0" 40 plain_env no_reaction 16
            "Some 10" "[]" "''a''" 0 False None] p40 by simp
  have 3: "paused (fst (tick plain_env no_reaction 16 (pause_render None ?h0))) = Some (- 1)"
    using pause_countdown_floor[of "pause_render None ?h0" 0 plain_env no_reaction 16
            None "[]" "''a''" 0 False None] pn by simp
  have 4: "paused (run plain_env no_reaction [PauseRender (Some 10), Tick 16] ?h0) = Some 0"
    using 1 by (simp add: run_def)
  have 5: "paused (fst (tick plain_env no_reaction 16 (pause_render (Some (- 5)) ?h0))) = Some (- 5)"
    using pause_countdown_floor[where tn = "- 5" and h = ?h0 and e = plain_env
            and react = no_reaction and delta = 16] by simp
  show ?thesis using 1 2 3 4 5 by simp
qed

theorem pause_negative_time_counterexample:
  "paused (run plain_env no_reaction [PauseRender (Some (- 5)), Tick 16, Tick 16]
             (constructor ''handler-render-createjs'' 1 False None)) = Some (- 5)
   \<and> paused (pause_render (Some 0) (constructor ''handler-render-createjs'' 1 False None))
        = Some (- 1)"
  by (simp add: run_def tick_keeps pause_render_def tick_pause_def)

section \<open>The cull pass\<close>

lemma set_visibility_keeps:
  "ch_hidden (set_visibility cam c) = ch_hidden c"
  "ch_name (set_visibility cam c) = ch_name c"
  "ch_bounds (set_visibility cam c) = ch_bounds c"
  "ch_z (set_visibility cam c) = ch_z c"
  "ch_paused (set_visibility cam c) = ch_paused c"
  by (simp_all add: set_visibility_def)

lemma set_paused_keeps:
  "ch_hidden (set_paused p c) = ch_hidden c"
  "ch_name (set_paused p c) = ch_name c"
  "ch_bounds (set_paused p c) = ch_bounds c"
  "ch_z (set_paused p c) = ch_z c"
  "ch_visible (set_paused p c) = ch_visible c"
  by (simp_all add: set_paused_def)

lemma set_visibility_visible:
  "ch_visible (set_visibility cam c) =
     (if ch_hidden c then False
      else if ch_name c \<noteq> ''entity-managed''
           then (case ch_bounds c of None \<Rightarrow> True | Some b \<Rightarrow> overlaps b cam)
           else ch_visible c)"
  by (simp add: set_visibility_def)

lemma cull_pass_nth:
  "i < length cs \<Longrightarrow> cull_pass cam p cs ! i = set_paused p (set_visibility cam (cs ! i))"
  by (simp add: cull_pass_map)

lemma length_cull_pass: "length (cull_pass cam p cs) = length cs"
  by (simp add: cull_pass_map)

lemmas scene_defs = scene_def run_def constructor_def new_stage_def add_child_def camera_update_def
     camera_at_def follow_def plain_env_def dpr_def box_150_def tick_begin_def tick_dispatch_def
     no_reaction_def tick_pause_def Let_def

lemma box_150_fields:
  "ch_hidden box_150 = False" "ch_name box_150 = ''sprite''"
  "ch_bounds box_150 = Some \<lparr>b_x = 150, b_y = 0, b_width = 10, b_height = 10\<rparr>"
  by (simp_all add: box_150_def)

lemma scene_camera:
  "tick_dispatch plain_env no_reaction (tick_begin 16 (scene box_150 [CameraUpdate (camera_at x0)]))
     = ((scene box_150 [CameraUpdate (camera_at x0)])\<lparr>renderMessage := [(''delta'', JNum 16), (''stage'', JStage 1)]\<rparr>,
        [HandleRender [(''delta'', JNum 16), (''stage'', JStage 1)]])"
  "stage (scene box_150 [CameraUpdate (camera_at x0)]) =
     Some \<lparr>stage_id = 1, children = [box_150], reorder = True, scaleX = 1, scaleY = 1, autoClear = False\<rparr>"
  "camera (scene box_150 [CameraUpdate (camera_at x0)]) =
     \<lparr>cam_left = 0, cam_top = 0, cam_x = Some x0, cam_y = Some 0, cam_width = 100, cam_height = 100\<rparr>"
  by (simp_all add: scene_defs)

text \<open>
  C5. On a tick that reaches the stage test with a stage \<open>st\<close>, the children after the
  pass (\<open>cs'\<close>, before the optional sort) correspond one to one to the children of \<open>st\<close>,
  with \<open>hidden\<close>, \<open>name\<close> and bounds unchanged. A hidden child ends not visible. A child
  that is not hidden and whose name is not \<open>entity-managed\<close> ends visible exactly when
  its transformed bounds are absent or \<open>bounds.x + bounds.width >= camera.x\<close>,
  \<open>bounds.x <= camera.x + camera.width\<close>, \<open>bounds.y + bounds.height >= camera.y\<close> and
  \<open>bounds.y <= camera.y + camera.height\<close> all hold, with the comparisons of JavaScript.
  The witness is the scenario of the camera \<open>{0, 0, 100, 100}\<close> and the child with
  bounds \<open>{150, 0, 10, 10}\<close>: not visible, and visible once the camera is at \<open>x = 60\<close>.
\<close>

theorem cull_visibility:
  assumes "tick_dispatch e react (tick_begin delta h) = (h1, acts1)" and "stage h1 = Some st"
  shows "\<exists>st' acts' cs'.
           tick e react delta h = (h1\<lparr>stage := Some st'\<rparr>, acts1 @ acts')
         \<and> children st' = (if reorder st then sortChildren sort_fn cs' else cs')
         \<and> length cs' = length (children st)
         \<and> (\<forall>i<length (children st).
               ch_hidden (cs' ! i) = ch_hidden (children st ! i)
             \<and> ch_name (cs' ! i) = ch_name (children st ! i)
             \<and> ch_bounds (cs' ! i) = ch_bounds (children st ! i)
             \<and> (ch_hidden (children st ! i) \<longrightarrow> \<not> ch_visible (cs' ! i))
             \<and> (\<not> ch_hidden (children st ! i) \<and> ch_name (children st ! i) \<noteq> ''entity-managed'' \<longrightarrow>
                  (ch_visible (cs' ! i) \<longleftrightarrow>
                     (case ch_bounds (children st ! i) of
                        None \<Rightarrow> True
                      | Some b \<Rightarrow>
                          js_ge (Some (b_x b + b_width b)) (cam_x (camera h))
                        \<and> js_le (Some (b_x b)) (js_add (cam_x (camera h)) (Some (cam_width (camera h))))
                        \<and> js_ge (Some (b_y b + b_height b)) (cam_y (camera h))
                        \<and> js_le (Some (b_y b)) (js_add (cam_y (camera h)) (Some (cam_height (camera h))))))))"
proof -
  have cam: "camera h1 = camera h"
    using tick_dispatch_keeps(2)[of e react "tick_begin delta h"] assms(1)
    by (simp add: tick_begin_def)
  let ?cs = "cull_pass (camera h1) (paused h1) (children st)"
  have "tick e react delta h =
          (h1\<lparr>stage := Some (fst (tick_stage e h1 st))\<rparr>, acts1 @ snd (tick_stage e h1 st))"
    by (rule tick_with_stage[OF assms])
  moreover have "children (fst (tick_stage e h1 st)) =
                   (if reorder st then sortChildren sort_fn ?cs else ?cs)"
    by (simp add: tick_stage_children)
  moreover have "length ?cs = length (children st)"
    by (rule length_cull_pass)
  moreover have "\<forall>i<length (children st).
               ch_hidden (?cs ! i) = ch_hidden (children st ! i)
             \<and> ch_name (?cs ! i) = ch_name (children st ! i)
             \<and> ch_bounds (?cs ! i) = ch_bounds (children st ! i)
             \<and> (ch_hidden (children st ! i) \<longrightarrow> \<not> ch_visible (?cs ! i))
             \<and> (\<not> ch_hidden (children st ! i) \<and> ch_name (children st ! i) \<noteq> ''entity-managed'' \<longrightarrow>
                  (ch_visible (?cs ! i) \<longleftrightarrow>
                     (case ch_bounds (children st ! i) of
                        None \<Rightarrow> True
                      | Some b \<Rightarrow>
                          js_ge (Some (b_x b + b_width b)) (cam_x (camera h))
                        \<and> js_le (Some (b_x b)) (js_add (cam_x (camera h)) (Some (cam_width (camera h))))
                        \<and> js_ge (Some (b_y b + b_height b)) (cam_y (camera h))
                        \<and> js_le (Some (b_y b)) (js_add (cam_y (camera h)) (Some (cam_height (camera h)))))))"
    by (auto simp: cull_pass_nth set_paused_keeps set_visibility_keeps set_visibility_visible
                   overlaps_def cam split: option.splits)
  ultimately show ?thesis by blast
qed

theorem cull_visibility_witness:
  "(\<exists>h' acts st'. tick plain_env no_reaction 16 (scene box_150 [CameraUpdate (camera_at 0)]) = (h', acts)
       \<and> stage h' = Some st' \<and> map ch_visible (children st') = [False])
 \<and> (\<exists>h' acts st'. tick plain_env no_reaction 16 (scene box_150 [CameraUpdate (camera_at 60)]) = (h', acts)
       \<and> stage h' = Some st' \<and> map ch_visible (children st') = [True])"
proof -
  have *: "\<exists>h' acts st'. tick plain_env no_reaction 16 (scene box_150 [CameraUpdate (camera_at x0)]) = (h', acts)
       \<and> stage h' = Some st' \<and> map ch_visible (children st') = [x0 \<le> 160 \<and> 50 \<le> x0]" for x0
  proof -
    let ?h = "scene box_150 [CameraUpdate (camera_at x0)]"
    let ?st = "\<lparr>stage_id = 1, children = [box_150], reorder = True, scaleX = 1, scaleY = 1, autoClear = False\<rparr>"
    from cull_visibility[OF scene_camera(1)[of x0], of ?st] scene_camera(2)[of x0]
    obtain st' acts' cs' where t: "tick plain_env no_reaction 16 ?h =
           (?h\<lparr>renderMessage := [(''delta'', JNum 16), (''stage'', JStage 1)], stage := Some st'\<rparr>,
            [HandleRender [(''delta'', JNum 16), (''stage'', JStage 1)]] @ acts')"
      and c: "children st' = (if reorder ?st then sortChildren sort_fn cs' else cs')"
      and l: "length cs' = length (children ?st)"
      and a: "\<forall>i<length (children ?st).
               ch_hidden (cs' ! i) = ch_hidden (children ?st ! i)
             \<and> ch_name (cs' ! i) = ch_name (children ?st ! i)
             \<and> ch_bounds (cs' ! i) = ch_bounds (children ?st ! i)
             \<and> (ch_hidden (children ?st ! i) \<longrightarrow> \<not> ch_visible (cs' ! i))
             \<and> (\<not> ch_hidden (children ?st ! i) \<and> ch_name (children ?st ! i) \<noteq> ''entity-managed'' \<longrightarrow>
                  (ch_visible (cs' ! i) \<longleftrightarrow>
                     (case ch_bounds (children ?st ! i) of
                        None \<Rightarrow> True
                      | Some b \<Rightarrow>
                          js_ge (Some (b_x b + b_width b)) (cam_x (camera ?h))
                        \<and> js_le (Some (b_x b)) (js_add (cam_x (camera ?h)) (Some (cam_width (camera ?h))))
                        \<and> js_ge (Some (b_y b + b_height b)) (cam_y (camera ?h))
                        \<and> js_le (Some (b_y b)) (js_add (cam_y (camera ?h)) (Some (cam_height (camera ?h)))))))"
      by (simp del: stage_t.simps) blast
    have v: "ch_visible (cs' ! 0) \<longleftrightarrow> (x0 \<le> 160 \<and> 50 \<le> x0)"
      using a by (simp add: scene_camera(3) box_150_fields)
    from l obtain c' where cs: "cs' = [c']" by (cases cs') auto
    have "map ch_visible (children st') = [x0 \<le> 160 \<and> 50 \<le> x0]"
      using c v cs by (simp add: sortChildren_def)
    then show ?thesis using t by simp
  qed
  show ?thesis using *[of 0] *[of 60] by simp
qed

section \<open>The conditional sort\<close>

lemma tick_dispatch_actions:
  "\<exists>m. snd (tick_dispatch e react h) =
          (if handleChildren h then (if canBroadcast e then [HandleRender m] else [])
           else [HandleRenderAddition m])"
  by (auto simp: tick_dispatch_def Let_def split: option.splits prod.splits)

lemma tick_dispatch_stage_None:
  "stage h = None \<Longrightarrow> stage (fst (tick_dispatch e react h)) = None"
  by (auto simp: tick_dispatch_def Let_def split: option.splits prod.splits)

lemma tick_stage_actions:
  "snd (tick_stage e h st) =
     (if reorder st then [StageSortChildren] else [])
     @ [TimeElapsed ''Render-Prep'', StageUpdate]
     @ (if android4 e \<and> autoClear st then [CanvasOpacity] else [])
     @ [TimeElapsed ''Render'']"
  by (simp add: tick_stage_def Let_def)

lemma tick_stage_reorder: "\<not> reorder (fst (tick_stage e h st))"
  by (simp add: tick_stage_def Let_def)

lemma cull_pass_z: "map ch_z (cull_pass cam p cs) = map ch_z cs"
  by (simp add: cull_pass_map set_paused_keeps set_visibility_keeps)

lemmas sort_scene_defs = sort_scene_def three_boxes_def box_at_def run_def constructor_def
  new_stage_def add_child_def plain_env_def tick_begin_def tick_dispatch_def no_reaction_def
  tick_pause_def Let_def

lemma sort_scene_dispatch:
  "tick_dispatch plain_env no_reaction (tick_begin 16 sort_scene)
     = (sort_scene\<lparr>renderMessage := [(''delta'', JNum 16), (''stage'', JStage 1)]\<rparr>,
        [HandleRender [(''delta'', JNum 16), (''stage'', JStage 1)]])"
  "stage sort_scene =
     Some \<lparr>stage_id = 1, children = [box_at 1 ''a'', box_at 2 ''b'', box_at 1 ''c''],
           reorder = True, scaleX = 1, scaleY = 1, autoClear = False\<rparr>"
  by (simp_all add: sort_scene_defs)

text \<open>
  C6. On a tick that reaches the stage test with a stage \<open>st\<close>, \<open>sortChildren\<close> is called
  exactly when the flag \<open>reorder\<close> of \<open>st\<close> is set, and the flag is clear afterwards. The
  pass before it turns each child \<open>c\<close> into \<open>g c\<close>, which differs from \<open>c\<close> at most in
  \<open>visible\<close> and \<open>paused\<close>. When the sort runs, the children end in ascending order of
  \<open>z\<close>, and for every depth \<open>k\<close> the children of depth \<open>k\<close> are the prior children of
  depth \<open>k\<close> in their prior order (the sort is stable); when it does not run, all
  children keep their prior order. Stability is that of \<open>sortChildren\<close> as the spec has it.
\<close>

theorem resort_iff_dirty:
  assumes "tick_dispatch e react (tick_begin delta h) = (h1, acts1)" and "stage h1 = Some st"
      and "g = (\<lambda>c. set_paused (tick_pause delta (paused h)) (set_visibility (camera h) c))"
  shows "\<exists>st' acts'.
           tick e react delta h = (h1\<lparr>stage := Some st'\<rparr>, acts1 @ acts')
         \<and> (\<forall>c. ch_z (g c) = ch_z c \<and> ch_name (g c) = ch_name c
                \<and> ch_hidden (g c) = ch_hidden c \<and> ch_bounds (g c) = ch_bounds c)
         \<and> (StageSortChildren \<in> set (acts1 @ acts') \<longleftrightarrow> reorder st)
         \<and> \<not> reorder st'
         \<and> (reorder st \<longrightarrow>
               sorted (map ch_z (children st'))
             \<and> (\<forall>k. filter (\<lambda>c. ch_z c = k) (children st') =
                     map g (filter (\<lambda>c. ch_z c = k) (children st))))
         \<and> (\<not> reorder st \<longrightarrow> children st' = map g (children st))"
proof -
  have k: "paused h1 = tick_pause delta (paused h)" "camera h1 = camera h"
    using tick_dispatch_keeps(1,2)[of e react "tick_begin delta h"] assms(1)
    by (simp_all add: tick_begin_def)
  let ?st' = "fst (tick_stage e h1 st)"
  have t: "tick e react delta h = (h1\<lparr>stage := Some ?st'\<rparr>, acts1 @ snd (tick_stage e h1 st))"
    by (rule tick_with_stage[OF assms(1,2)])
  have "\<exists>m. acts1 = (if handleChildren (tick_begin delta h)
                      then (if canBroadcast e then [HandleRender m] else [])
                      else [HandleRenderAddition m])"
    using tick_dispatch_actions[of e react "tick_begin delta h"] assms(1) by simp
  then have a1: "StageSortChildren \<notin> set acts1" by (auto split: if_splits)
  have a2: "StageSortChildren \<in> set (snd (tick_stage e h1 st)) \<longleftrightarrow> reorder st"
    by (simp add: tick_stage_actions)
  have p: "cull_pass (camera h1) (paused h1) (children st) = map g (children st)"
    by (simp add: cull_pass_map k assms(3))
  have z: "\<forall>c. ch_z (g c) = ch_z c \<and> ch_name (g c) = ch_name c
                \<and> ch_hidden (g c) = ch_hidden c \<and> ch_bounds (g c) = ch_bounds c"
    by (simp add: assms(3) set_paused_keeps set_visibility_keeps)
  have c: "children ?st' = (if reorder st then sort_key ch_z (map g (children st))
                            else map g (children st))"
    by (simp add: tick_stage_children sortChildren_sort_key p)
  have f: "filter (\<lambda>c. ch_z c = k) (map g cs) = map g (filter (\<lambda>c. ch_z c = k) cs)" for k cs
    using z by (induction cs) simp_all
  have s: "reorder st \<longrightarrow>
               sorted (map ch_z (children ?st'))
             \<and> (\<forall>k. filter (\<lambda>c. ch_z c = k) (children ?st') =
                     map g (filter (\<lambda>c. ch_z c = k) (children st)))"
    by (simp add: c sort_key_stable f)
  have n: "\<not> reorder st \<longrightarrow> children ?st' = map g (children st)" by (simp add: c)
  show ?thesis
    using t a1 a2 z s n tick_stage_reorder[of e h1 st]
    by (intro exI[of _ ?st'] exI[of _ "snd (tick_stage e h1 st)"]) simp
qed

lemma sort_scene_paused: "paused sort_scene = None"
  by (simp add: sort_scene_defs)

lemma sort_scene_children:
  "map_option children (stage (fst (tick plain_env no_reaction 16 sort_scene)))
     = Some [box_at 1 ''a'', box_at 1 ''c'', box_at 2 ''b'']"
  by (simp add: tick_def sort_scene_dispatch sort_scene_paused tick_stage_def cull_pass_map
        sortChildren_def sort_fn_def set_paused_def set_visibility_def box_at_def Let_def)

theorem resort_iff_dirty_witness:
  "\<exists>st' acts'.
      tick plain_env no_reaction 16 sort_scene =
        (sort_scene\<lparr>renderMessage := [(''delta'', JNum 16), (''stage'', JStage 1)],
                    stage := Some st'\<rparr>,
         [HandleRender [(''delta'', JNum 16), (''stage'', JStage 1)]] @ acts')
    \<and> StageSortChildren \<in> set acts' \<and> \<not> reorder st'
    \<and> sorted (map ch_z (children st'))
    \<and> children st' = [box_at 1 ''a'', box_at 1 ''c'', box_at 2 ''b'']"
proof -
  let ?st = "\<lparr>stage_id = 1, children = [box_at 1 ''a'', box_at 2 ''b'', box_at 1 ''c''],
           reorder = True, scaleX = 1, scaleY = 1, autoClear = False\<rparr>"
  from resort_iff_dirty[OF sort_scene_dispatch(1) _ refl, of ?st] sort_scene_dispatch(2)
  obtain st' acts' where t: "tick plain_env no_reaction 16 sort_scene =
        (sort_scene\<lparr>renderMessage := [(''delta'', JNum 16), (''stage'', JStage 1)],
                    stage := Some st'\<rparr>,
         [HandleRender [(''delta'', JNum 16), (''stage'', JStage 1)]] @ acts')"
    and s: "StageSortChildren \<in> set acts'" "\<not> reorder st'" "sorted (map ch_z (children st'))"
    by auto
  have "children st' = [box_at 1 ''a'', box_at 1 ''c'', box_at 2 ''b'']"
    using sort_scene_children t by simp
  then show ?thesis using t s by (intro exI[of _ st'] exI[of _ acts'] conjI)
qed

section \<open>Ticks without a stage, and managed children\<close>

text \<open>
  C3 (amended). A tick delivered after \<open>destroy\<close>, or while the stage is absent, changes
  no child's visibility or pause flag, sorts nothing, does not update the stage and
  reports no telemetry. It still runs what precedes the stage test. It writes \<open>delta\<close>
  into the render message (\<open>m0\<close>) and counts the pause timer down. A primary handler
  whose owner can broadcast sends \<open>handle-render\<close> to the children with \<open>m0\<close> and the
  pending extra content merged in, and then deletes the merged keys; a secondary
  handler triggers \<open>handle-render-addition\<close> with \<open>m0\<close>. Nothing else of the handler
  changes, and these are its only actions.
\<close>

theorem tick_without_stage:
  assumes "stage h = None"
      and "m0 = obj_put ''delta'' (JNum delta) (renderMessage h)"
  shows "stage (destroy h0) = None
       \<and> obj_get m0 ''delta'' = Some (JNum delta)
       \<and> snd (tick e react delta h) =
           (if handleChildren h then
              (if canBroadcast e
               then [HandleRender (case extraContent h of None \<Rightarrow> m0
                                   | Some ex \<Rightarrow> merge_into ex m0)]
               else [])
            else [HandleRenderAddition m0])
       \<and> fst (tick e react delta h) =
           (if handleChildren h then
              (case extraContent h of
                 None \<Rightarrow> h\<lparr>renderMessage := m0, paused := tick_pause delta (paused h)\<rparr>
               | Some ex \<Rightarrow>
                   h\<lparr>renderMessage := snd (delete_merged (obj_keys ex) ex (merge_into ex m0)),
                     extraContent := Some (fst (delete_merged (obj_keys ex) ex (merge_into ex m0))),
                     paused := tick_pause delta (paused h)\<rparr>)
            else h\<lparr>renderMessage := m0, paused := tick_pause delta (paused h)\<rparr>)
       \<and> (\<forall>a\<in>set (snd (tick e react delta h)).
             a \<noteq> StageSortChildren \<and> a \<noteq> StageUpdate \<and> a \<noteq> CanvasOpacity
           \<and> (\<forall>n. a \<noteq> TimeElapsed n))"
proof -
  have g: "map_of (obj_put k v ob) k = Some v" for k v and ob :: jsobject
    by (induction k v ob rule: obj_put.induct) simp_all
  have n: "stage (fst (tick_dispatch e react (tick_begin delta h))) = None"
    using tick_dispatch_stage_None[of "tick_begin delta h" e react] assms(1)
    by (simp add: tick_begin_def)
  have t: "tick e react delta h = tick_dispatch e react (tick_begin delta h)"
    using n by (cases "tick_dispatch e react (tick_begin delta h)") (simp add: tick_def)
  have s: "snd (tick e react delta h) =
           (if handleChildren h then
              (if canBroadcast e
               then [HandleRender (case extraContent h of None \<Rightarrow> m0
                                   | Some ex \<Rightarrow> merge_into ex m0)]
               else [])
            else [HandleRenderAddition m0])"
    unfolding t assms(2)
    by (cases "extraContent h")
       (simp_all add: tick_dispatch_def tick_begin_def Let_def split: prod.splits)
  have f: "fst (tick e react delta h) =
           (if handleChildren h then
              (case extraContent h of
                 None \<Rightarrow> h\<lparr>renderMessage := m0, paused := tick_pause delta (paused h)\<rparr>
               | Some ex \<Rightarrow>
                   h\<lparr>renderMessage := snd (delete_merged (obj_keys ex) ex (merge_into ex m0)),
                     extraContent := Some (fst (delete_merged (obj_keys ex) ex (merge_into ex m0))),
                     paused := tick_pause delta (paused h)\<rparr>)
            else h\<lparr>renderMessage := m0, paused := tick_pause delta (paused h)\<rparr>)"
    unfolding t assms(2) using assms(1)
    by (cases "extraContent h")
       (simp_all add: tick_dispatch_def tick_begin_def Let_def split: prod.splits)
  have a: "\<forall>a\<in>set (snd (tick e react delta h)).
             a \<noteq> StageSortChildren \<and> a \<noteq> StageUpdate \<and> a \<noteq> CanvasOpacity
           \<and> (\<forall>n. a \<noteq> TimeElapsed n)"
    by (simp add: s)
  show ?thesis
    using s f a by (simp add: destroy_def assms(2) obj_get_def g)
qed

theorem tick_without_stage_witness:
  "stage (destroy (constructor ''handler-render-createjs'' 1 False None)) = None
   \<and> snd (tick plain_env no_reaction 16
        (destroy (constructor ''handler-render-createjs'' 1 False None)))
       = [HandleRender [(''delta'', JNum 16), (''stage'', JStage 1)]]
   \<and> renderMessage (fst (tick plain_env no_reaction 16
        (destroy (constructor ''handler-render-createjs'' 1 False None))))
       = [(''delta'', JNum 16), (''stage'', JStage 1)]
   \<and> stage (fst (tick plain_env no_reaction 16
        (destroy (constructor ''handler-render-createjs'' 1 False None)))) = None"
proof -
  let ?h = "destroy (constructor ''handler-render-createjs'' 1 False None)"
  have s: "stage ?h = None" by (simp add: destroy_def)
  have p: "handleChildren ?h" "canBroadcast plain_env" "extraContent ?h = None"
          "renderMessage ?h = [(''delta'', JNum 0), (''stage'', JStage 1)]"
    by (simp_all add: destroy_def constructor_def plain_env_def)
  show ?thesis
    using tick_without_stage[OF s refl, where ?h0.0 = ?h and e = plain_env
            and react = no_reaction and delta = 16] s p
    by simp
qed

theorem tick_after_destroy_counterexample:
  "snd (tick plain_env no_reaction 16
         (destroy (constructor ''handler-render-createjs'' 1 False None)))
     = [HandleRender [(''delta'', JNum 16), (''stage'', JStage 1)]]"
  by (simp add: tick_def tick_begin_def tick_dispatch_def destroy_def constructor_def
        plain_env_def tick_pause_def Let_def)






section \<open>The camera before the first update\<close>








section \<open>The world point of a press and of the public query\<close>

lemma retina_facts:
  "dpr retina_env = 2"
  "input retina_handler = Some \<lparr>triggerOnAllMovement = False, cameraMovementMovesMouse = False,
      in_x = Some 0, in_y = Some 0, originalEvent = None, moveMouse = None\<rparr>"
  "stage retina_handler = Some \<lparr>stage_id = 1, children = [], reorder = False, scaleX = 1,
      scaleY = 1, autoClear = False\<rparr>"
  "cam_x (camera retina_handler) = Some 0" "cam_y (camera retina_handler) = Some 0"
  by (simp_all add: retina_handler_def retina_env_def dpr_def camera_update_def constructor_def
        new_stage_def follow_def Let_def)

lemma plain_facts:
  "dpr plain_env = 1"
  "stage plain_handler = Some \<lparr>stage_id = 1, children = [], reorder = False, scaleX = 1,
      scaleY = 1, autoClear = False\<rparr>"
  "cam_x (camera plain_handler) = Some 0" "cam_y (camera plain_handler) = Some 0"
  "input plain_handler = Some \<lparr>triggerOnAllMovement = False, cameraMovementMovesMouse = False,
      in_x = Some 0, in_y = Some 0, originalEvent = None, moveMouse = None\<rparr>"
  by (simp_all add: plain_handler_def plain_env_def dpr_def camera_update_def constructor_def
        new_stage_def follow_def camera_at_def Let_def)

text \<open>
  C9. A press that reaches a handler with input set up and a stage is delivered to the
  owner as one \<open>mousedown\<close> whose \<open>x\<close> is \<open>(event.stageX / dpr) / stage.scaleX + camera.x\<close>
  and whose \<open>y\<close> is \<open>(event.stageY / dpr) / stage.scaleY + camera.y\<close>. The witness is the
  press at device pixel \<open>(100, 50)\<close> with device pixel ratio \<open>2\<close>, stage scale \<open>1\<close> and
  camera origin \<open>(0, 0)\<close>, delivered with the world point \<open>(50, 25)\<close>.
\<close>

theorem press_world_point:
  assumes "input h = Some i" and "stage h = Some st"
      and "scaleX st \<noteq> 0" and "scaleY st \<noteq> 0"
  shows "snd (mousedown e ev h) =
           [OwnerTrigger ''mousedown''
              \<lparr>pk_x = js_add (Some ((stageX ev / dpr e) / scaleX st)) (cam_x (camera h)),
               pk_y = js_add (Some ((stageY ev / dpr e) / scaleY st)) (cam_y (camera h))\<rparr>]
       \<and> (cam_x (camera h) = Some cx \<and> cam_y (camera h) = Some cy \<longrightarrow>
            snd (mousedown e ev h) =
              [OwnerTrigger ''mousedown''
                 \<lparr>pk_x = Some ((stageX ev / dpr e) / scaleX st + cx),
                  pk_y = Some ((stageY ev / dpr e) / scaleY st + cy)\<rparr>])"
  using assms by (simp add: mousedown_def setXY_def)

theorem press_world_point_witness:
  "dpr retina_env = 2 \<and> stageX press_100_50 = 100 \<and> stageY press_100_50 = 50
   \<and> map_option scaleX (stage retina_handler) = Some 1
   \<and> map_option scaleY (stage retina_handler) = Some 1
   \<and> cam_x (camera retina_handler) = Some 0 \<and> cam_y (camera retina_handler) = Some 0
   \<and> snd (mousedown retina_env press_100_50 retina_handler) =
        [OwnerTrigger ''mousedown'' \<lparr>pk_x = Some 50, pk_y = Some 25\<rparr>]"
  using press_world_point[OF retina_facts(2,3), of retina_env press_100_50 0 0]
  by (simp add: retina_facts press_100_50_def)

text \<open>
  C1 (amended). With the stage present, \<open>getWorldPointFromScreen(sp)\<close> returns, on each
  axis, \<open>(sp * dpr) / stageScale + cameraOrigin\<close>: it multiplies by the device pixel
  ratio where \<open>setXY\<close> divides by it. The two conversions return the same world point
  when the device pixel ratio is \<open>1\<close>.
\<close>

theorem world_point_query:
  assumes "stage h = Some st" and "scaleX st \<noteq> 0" and "scaleY st \<noteq> 0"
  shows "getWorldPointFromScreen e h sp =
           Some \<lparr>pk_x = js_add (Some ((pt_x sp * dpr e) / scaleX st)) (cam_x (camera h)),
                 pk_y = js_add (Some ((pt_y sp * dpr e) / scaleY st)) (cam_y (camera h))\<rparr>
       \<and> (dpr e = 1 \<longrightarrow>
            (\<exists>i'. setXY e h \<lparr>stageX = pt_x sp, stageY = pt_y sp, engaged = g\<rparr> i = Inr i'
                \<and> getWorldPointFromScreen e h sp = Some \<lparr>pk_x = in_x i', pk_y = in_y i'\<rparr>))"
  using assms by (simp add: getWorldPointFromScreen_def setXY_def)

theorem world_point_query_witness:
  "dpr plain_env = 1
   \<and> getWorldPointFromScreen plain_env plain_handler \<lparr>pt_x = 100, pt_y = 50\<rparr>
       = Some \<lparr>pk_x = Some 100, pk_y = Some 50\<rparr>
   \<and> snd (mousedown plain_env \<lparr>stageX = 100, stageY = 50, engaged = True\<rparr> plain_handler)
       = [OwnerTrigger ''mousedown'' \<lparr>pk_x = Some 100, pk_y = Some 50\<rparr>]
   \<and> getWorldPointFromScreen retina_env retina_handler \<lparr>pt_x = 100, pt_y = 50\<rparr>
       = Some \<lparr>pk_x = Some 200, pk_y = Some 100\<rparr>"
  using world_point_query[OF plain_facts(2), of plain_env "\<lparr>pt_x = 100, pt_y = 50\<rparr>"]
        world_point_query[OF retina_facts(3), of retina_env "\<lparr>pt_x = 100, pt_y = 50\<rparr>"]
  by (simp add: plain_facts retina_facts mousedown_def setXY_def)

theorem world_point_query_counterexample:
  "getWorldPointFromScreen retina_env retina_handler \<lparr>pt_x = 100, pt_y = 50\<rparr>
     = Some \<lparr>pk_x = Some 200, pk_y = Some 100\<rparr>
   \<and> snd (mousedown retina_env \<lparr>stageX = 100, stageY = 50, engaged = True\<rparr> retina_handler)
     = [OwnerTrigger ''mousedown'' \<lparr>pk_x = Some 50, pk_y = Some 25\<rparr>]"
  by (simp add: getWorldPointFromScreen_def mousedown_def setXY_def retina_facts)

section \<open>Objects and the render message\<close>

lemma map_of_obj_put: "map_of (obj_put k v ob) k' = (if k' = k then Some v else map_of ob k')"
  by (induction k v ob rule: obj_put.induct) auto

lemma obj_get_put: "obj_get (obj_put k v ob) k' = (if k' = k then Some v else obj_get ob k')"
  by (simp add: obj_get_def map_of_obj_put)

lemma obj_get_del: "obj_get (obj_del k ob) k' = (if k' = k then None else obj_get ob k')"
  unfolding obj_get_def by (induction k ob rule: obj_del.induct) auto

lemma keys_obj_put: "set (obj_keys (obj_put k v ob)) = insert k (set (obj_keys ob))"
  unfolding obj_keys_def by (induction k v ob rule: obj_put.induct) auto

lemma keys_obj_del: "set (obj_keys (obj_del k ob)) = set (obj_keys ob) - {k}"
  unfolding obj_keys_def by (induction k ob rule: obj_del.induct) auto

lemma distinct_obj_put: "distinct (obj_keys ob) \<Longrightarrow> distinct (obj_keys (obj_put k v ob))"
proof (induction ob)
  case Nil
  then show ?case by (simp add: obj_keys_def)
next
  case (Cons p ps)
  obtain k0 v0 where p: "p = (k0, v0)" by (cases p)
  have "k0 \<notin> set (obj_keys (obj_put k v ps))" if "k0 \<noteq> k"
    using Cons.prems that by (simp add: keys_obj_put p) (simp add: obj_keys_def)
  then show ?case using Cons p by (auto simp: obj_keys_def)
qed

lemma distinct_merge_into:
  "distinct (obj_keys m) \<Longrightarrow> distinct (obj_keys (merge_into es m))"
  by (induction es arbitrary: m) (auto simp: distinct_obj_put)

lemma obj_get_None: "obj_get ob k = None \<longleftrightarrow> k \<notin> set (obj_keys ob)"
  by (simp add: obj_get_def obj_keys_def map_of_eq_None_iff)

lemma obj_get_merge_into:
  "distinct (obj_keys es) \<Longrightarrow>
   obj_get (merge_into es m) k = (case obj_get es k of Some v \<Rightarrow> Some v | None \<Rightarrow> obj_get m k)"
proof (induction es arbitrary: m)
  case Nil
  then show ?case by (simp add: obj_get_def)
next
  case (Cons p es)
  obtain k0 v0 where p: "p = (k0, v0)" by (cases p)
  have d: "distinct (obj_keys es)" and n: "obj_get es k0 = None"
    using Cons.prems by (simp_all add: p obj_get_None) (simp_all add: obj_keys_def)
  have "obj_get (merge_into (p # es) m) k =
        (case obj_get es k of Some v \<Rightarrow> Some v | None \<Rightarrow> obj_get (obj_put k0 v0 m) k)"
    using Cons.IH[OF d] by (simp add: p)
  also have "\<dots> = (case obj_get (p # es) k of Some v \<Rightarrow> Some v | None \<Rightarrow> obj_get m k)"
    using n by (cases "k = k0") (auto simp: p obj_get_def map_of_obj_put split: option.splits)
  finally show ?case .
qed

lemma delete_merged_fold:
  "delete_merged ks ex m = (fold obj_del ks ex, fold obj_del ks m)"
  by (induction ks arbitrary: ex m) simp_all

lemma obj_get_fold_del:
  "obj_get (fold obj_del ks m) k = (if k \<in> set ks then None else obj_get m k)"
  by (induction ks arbitrary: m) (auto simp: obj_get_del)

lemma keys_fold_del: "set (obj_keys (fold obj_del ks m)) = set (obj_keys m) - set ks"
  by (induction ks arbitrary: m) (auto simp: keys_obj_del)

lemma delete_all_keys: "fold obj_del (obj_keys ex) ex = []"
proof -
  have "set (obj_keys (fold obj_del (obj_keys ex) ex)) = {}"
    by (simp add: keys_fold_del)
  then show ?thesis by (simp add: obj_keys_def)
qed

text \<open>What the cleanup of the dispatch step leaves: the pending map is empty, and the
  message keeps exactly the keys that no extra content named.\<close>

lemma tick_dispatch_primary:
  assumes "handleChildren h"
  shows "extraContent (fst (tick_dispatch e react h)) = map_option (\<lambda>_. []) (extraContent h)"
    and "obj_get (renderMessage (fst (tick_dispatch e react h))) k =
           (case extraContent h of
              None \<Rightarrow> obj_get (renderMessage h) k
            | Some ex \<Rightarrow> if k \<in> set (obj_keys ex) then None else obj_get (renderMessage h) k)"
    and "snd (tick_dispatch e react h) =
           (if canBroadcast e
            then [HandleRender (case extraContent h of None \<Rightarrow> renderMessage h
                                | Some ex \<Rightarrow> merge_into ex (renderMessage h))]
            else [])"
proof -
  show "extraContent (fst (tick_dispatch e react h)) = map_option (\<lambda>_. []) (extraContent h)"
    using assms
    by (auto simp: tick_dispatch_def Let_def delete_merged_fold delete_all_keys split: option.splits)
  show "snd (tick_dispatch e react h) =
           (if canBroadcast e
            then [HandleRender (case extraContent h of None \<Rightarrow> renderMessage h
                                | Some ex \<Rightarrow> merge_into ex (renderMessage h))]
            else [])"
    using assms
    by (auto simp: tick_dispatch_def Let_def delete_merged_fold split: option.splits)
  show "obj_get (renderMessage (fst (tick_dispatch e react h))) k =
           (case extraContent h of
              None \<Rightarrow> obj_get (renderMessage h) k
            | Some ex \<Rightarrow> if k \<in> set (obj_keys ex) then None else obj_get (renderMessage h) k)"
  proof (cases "extraContent h")
    case None
    then show ?thesis using assms by (simp add: tick_dispatch_def Let_def)
  next
    case (Some ex)
    have "obj_get (merge_into es m) k = obj_get m k" if "k \<notin> set (obj_keys es)" for es m
      using that by (induction es arbitrary: m) (auto simp: obj_get_put obj_keys_def)
    then show ?thesis using assms Some
      by (simp add: tick_dispatch_def Let_def delete_merged_fold obj_get_fold_del)
  qed
qed

lemma tick_dispatch_secondary:
  "\<not> handleChildren h \<Longrightarrow> tick_dispatch e react h = (h, [HandleRenderAddition (renderMessage h)])"
  by (simp add: tick_dispatch_def)

section \<open>Two handlers on one owner\<close>

lemma tick_stage_no_dispatch: "\<forall>a\<in>set (snd (tick_stage e h st)). \<not> is_dispatch a"
  by (auto simp: tick_stage_actions)

lemma tick_begin_fields:
  "renderMessage (tick_begin d h) = obj_put ''delta'' (JNum d) (renderMessage h)"
  "extraContent (tick_begin d h) = extraContent h"
  "handleChildren (tick_begin d h) = handleChildren h"
  "stage (tick_begin d h) = stage h"
  by (simp_all add: tick_begin_def)

lemma tick_actions:
  "\<exists>rest. snd (tick e react d h) = snd (tick_dispatch e react (tick_begin d h)) @ rest
         \<and> (\<forall>a\<in>set rest. \<not> is_dispatch a)"
proof (cases "tick_dispatch e react (tick_begin d h)")
  case (Pair h1 acts1)
  show ?thesis
  proof (cases "stage h1")
    case None
    then show ?thesis using Pair by (simp add: tick_def)
  next
    case (Some st)
    show ?thesis
      using tick_with_stage[OF Pair Some] Pair tick_stage_no_dispatch[of e h1 st] by simp
  qed
qed

lemma tick_secondary:
  assumes "\<not> handleChildren h"
  shows "\<exists>rest. snd (tick e react d h) =
            HandleRenderAddition (obj_put ''delta'' (JNum d) (renderMessage h)) # rest
          \<and> (\<forall>a\<in>set rest. \<not> is_dispatch a)"
  using tick_actions[of e react d h] assms
  by (simp add: tick_dispatch_secondary tick_begin_fields)

lemma tick_primary:
  assumes "handleChildren h" and "canBroadcast e"
  shows "\<exists>rest. snd (tick e react d h) =
            HandleRender (case extraContent h of
                            None \<Rightarrow> obj_put ''delta'' (JNum d) (renderMessage h)
                          | Some ex \<Rightarrow> merge_into ex (obj_put ''delta'' (JNum d) (renderMessage h)))
              # rest
          \<and> (\<forall>a\<in>set rest. \<not> is_dispatch a)"
  using tick_actions[of e react d h] assms
        tick_dispatch_primary(3)[of "tick_begin d h" e react]
  by (cases "extraContent h") (simp_all add: tick_begin_fields)

lemma tick_extraContent:
  "handleChildren h \<Longrightarrow>
   extraContent (fst (tick e react d h)) = map_option (\<lambda>_. []) (extraContent h)"
  using tick_dispatch_primary(1)[of "tick_begin d h" e react]
  by (auto simp: tick_def tick_begin_def split: prod.splits option.splits)

lemma deliver_actions_one:
  "\<forall>a\<in>set rest. \<not> is_dispatch a \<Longrightarrow> deliver_actions rest hs = hs"
proof (induction rest)
  case Nil
  then show ?case by simp
next
  case (Cons a rest)
  then show ?case by (cases a) simp_all
qed

lemma owner_tick_secondary_first:
  assumes "\<not> handleChildren A" and "\<not> additionListener A"
      and "handleChildren B" and "additionListener B" and "canBroadcast e"
  shows "owner_tick e react d [0, 1] [A, B] =
           ([fst (tick e react d A),
             fst (tick e react d
                    (handle_render_addition (obj_put ''delta'' (JNum d) (renderMessage A)) B))],
            [(0, snd (tick e react d A)),
             (1, snd (tick e react d
                    (handle_render_addition (obj_put ''delta'' (JNum d) (renderMessage A)) B)))])"
proof -
  let ?mA = "obj_put ''delta'' (JNum d) (renderMessage A)"
  let ?B1 = "handle_render_addition ?mA B"
  obtain A' actsA where tA: "tick e react d A = (A', actsA)" by (cases "tick e react d A")
  obtain B' actsB where tB: "tick e react d ?B1 = (B', actsB)" by (cases "tick e react d ?B1")
  obtain restA where rA: "actsA = HandleRenderAddition ?mA # restA" "\<forall>a\<in>set restA. \<not> is_dispatch a"
    using tick_secondary[OF assms(1), of e react d] tA by auto
  have lA: "\<not> additionListener A'"
    using tick_keeps(4)[of e react d A] tA assms(2) by simp
  have d1: "deliver_actions actsA [A', B] = [A', ?B1]"
    using rA lA assms(4) by (simp add: deliver_addition_def deliver_actions_one)
  have hB1: "handleChildren ?B1" using assms(3) by (simp add: handle_render_addition_def)
  obtain restB m where rB: "actsB = HandleRender m # restB" "\<forall>a\<in>set restB. \<not> is_dispatch a"
    using tick_primary[OF hB1 assms(5), of react d] tB by auto
  have d2: "deliver_actions actsB [A', B'] = [A', B']"
    using rB by (simp add: deliver_actions_one)
  show ?thesis using tA tB d1 d2 by simp
qed

lemma owner_tick_primary_first:
  assumes "\<not> handleChildren A" and "\<not> additionListener A"
      and "handleChildren B" and "additionListener B" and "canBroadcast e"
  shows "owner_tick e react d [1, 0] [A, B] =
           ([fst (tick e react d A),
             handle_render_addition (obj_put ''delta'' (JNum d) (renderMessage A))
               (fst (tick e react d B))],
            [(1, snd (tick e react d B)), (0, snd (tick e react d A))])"
proof -
  let ?mA = "obj_put ''delta'' (JNum d) (renderMessage A)"
  obtain A' actsA where tA: "tick e react d A = (A', actsA)" by (cases "tick e react d A")
  obtain B' actsB where tB: "tick e react d B = (B', actsB)" by (cases "tick e react d B")
  obtain restB m where rB: "actsB = HandleRender m # restB" "\<forall>a\<in>set restB. \<not> is_dispatch a"
    using tick_primary[OF assms(3,5), of react d] tB by auto
  have d1: "deliver_actions actsB [A, B'] = [A, B']"
    using rB by (simp add: deliver_actions_one)
  obtain restA where rA: "actsA = HandleRenderAddition ?mA # restA" "\<forall>a\<in>set restA. \<not> is_dispatch a"
    using tick_secondary[OF assms(1), of e react d] tA by auto
  have lA: "\<not> additionListener A'"
    using tick_keeps(4)[of e react d A] tA assms(2) by simp
  have lB: "additionListener B'"
    using tick_keeps(4)[of e react d B] tB assms(4) by simp
  have d2: "deliver_actions actsA [A', B'] = [A', handle_render_addition ?mA B']"
    using rA lA lB by (simp add: deliver_addition_def deliver_actions_one)
  show ?thesis using tA tB d1 d2 by simp
qed

lemma load_roles:
  assumes "take 14 (ctype B) = ''handler-render''"
      and "handleChildren A" "handleChildren B" "\<not> additionListener A" "\<not> additionListener B"
  shows "map handleChildren (load 1 (load 0 [A, B])) = [False, True]"
    and "map additionListener (load 1 (load 0 [A, B])) = [False, True]"
  using assms by (simp_all add: load_def)

lemma addition_roles:
  "handleChildren (handle_render_addition a h) = handleChildren h"
  "additionListener (handle_render_addition a h) = additionListener h"
  "renderMessage (handle_render_addition a h) = renderMessage h"
  "extraContent (handle_render_addition a h) =
     Some (merge_into a (case extraContent h of None \<Rightarrow> [] | Some ex \<Rightarrow> ex))"
  by (simp_all add: handle_render_addition_def)

lemma merged_carries:
  assumes "distinct (obj_keys a)" and "distinct (obj_keys ex)" and "obj_get a k = Some v"
  shows "obj_get (merge_into (merge_into a ex) m) k = Some v"
proof -
  have "distinct (obj_keys (merge_into a ex))"
    using assms(2) by (rule distinct_merge_into)
  then have "obj_get (merge_into (merge_into a ex) m) k =
             (case obj_get (merge_into a ex) k of Some v \<Rightarrow> Some v | None \<Rightarrow> obj_get m k)"
    by (rule obj_get_merge_into)
  moreover have "obj_get (merge_into a ex) k = Some v"
    using assms(1,3) by (simp add: obj_get_merge_into)
  ultimately show ?thesis by simp
qed

lemma secondary_first_same_tick:
  assumes "\<not> handleChildren A" and "\<not> additionListener A"
      and "handleChildren B" and "additionListener B" and "canBroadcast e"
      and "distinct (obj_keys (renderMessage A))"
      and "case extraContent B of None \<Rightarrow> True | Some ex \<Rightarrow> distinct (obj_keys ex)"
      and "mA = obj_put ''delta'' (JNum d) (renderMessage A)"
  shows "\<exists>hs' restA m restB.
           owner_tick e react d [0, 1] [A, B] =
             (hs', [(0, HandleRenderAddition mA # restA), (1, HandleRender m # restB)])
         \<and> (\<forall>a\<in>set (restA @ restB). \<not> is_dispatch a)
         \<and> (\<forall>k v. obj_get mA k = Some v \<longrightarrow> obj_get m k = Some v)"
proof -
  let ?B1 = "handle_render_addition mA B"
  let ?ex0 = "case extraContent B of None \<Rightarrow> [] | Some ex \<Rightarrow> ex"
  let ?m = "merge_into (merge_into mA ?ex0) (obj_put ''delta'' (JNum d) (renderMessage B))"
  have ot: "owner_tick e react d [0, 1] [A, B] =
           ([fst (tick e react d A), fst (tick e react d ?B1)],
            [(0, snd (tick e react d A)), (1, snd (tick e react d ?B1))])"
    using owner_tick_secondary_first[OF assms(1-5)] assms(8) by simp
  obtain restA where rA: "snd (tick e react d A) = HandleRenderAddition mA # restA"
      "\<forall>a\<in>set restA. \<not> is_dispatch a"
    using tick_secondary[OF assms(1), of e react d] assms(8) by auto
  have "handleChildren ?B1" using assms(3) by (simp add: addition_roles)
  from tick_primary[OF this assms(5), of react d]
  obtain restB where rB: "snd (tick e react d ?B1) = HandleRender ?m # restB"
      "\<forall>a\<in>set restB. \<not> is_dispatch a"
    by (auto simp: addition_roles)
  have dA: "distinct (obj_keys mA)"
    using assms(6,8) by (simp add: distinct_obj_put)
  have dB: "distinct (obj_keys ?ex0)"
    using assms(7) by (cases "extraContent B") (simp_all add: obj_keys_def)
  have c: "\<forall>k v. obj_get mA k = Some v \<longrightarrow> obj_get ?m k = Some v"
    using merged_carries[OF dA dB] by blast
  show ?thesis
    using ot rA rB c
    by (intro exI[of _ "[fst (tick e react d A), fst (tick e react d ?B1)]"]
              exI[of _ restA] exI[of _ ?m] exI[of _ restB]) auto
qed

lemma primary_first_next_tick:
  assumes "\<not> handleChildren A" and "\<not> additionListener A"
      and "handleChildren B" and "additionListener B" and "canBroadcast e"
      and "distinct (obj_keys (renderMessage A))"
      and "mA = obj_put ''delta'' (JNum d) (renderMessage A)"
  shows "\<exists>hs' m restB restA.
           owner_tick e react d [1, 0] [A, B] =
             (hs', [(1, HandleRender m # restB), (0, HandleRenderAddition mA # restA)])
         \<and> (\<forall>a\<in>set (restA @ restB). \<not> is_dispatch a)
         \<and> m = (case extraContent B of
                  None \<Rightarrow> obj_put ''delta'' (JNum d) (renderMessage B)
                | Some ex \<Rightarrow> merge_into ex (obj_put ''delta'' (JNum d) (renderMessage B)))
         \<and> (\<exists>hs'' m' restB' mA' restA'.
               owner_tick e react d' [1, 0] hs' =
                 (hs'', [(1, HandleRender m' # restB'), (0, HandleRenderAddition mA' # restA')])
             \<and> (\<forall>k v. obj_get mA k = Some v \<longrightarrow> obj_get m' k = Some v))"
proof -
  let ?A' = "fst (tick e react d A)"
  let ?B' = "fst (tick e react d B)"
  let ?B2 = "handle_render_addition mA ?B'"
  let ?m = "case extraContent B of
              None \<Rightarrow> obj_put ''delta'' (JNum d) (renderMessage B)
            | Some ex \<Rightarrow> merge_into ex (obj_put ''delta'' (JNum d) (renderMessage B))"
  have ot: "owner_tick e react d [1, 0] [A, B] =
           ([?A', ?B2], [(1, snd (tick e react d B)), (0, snd (tick e react d A))])"
    using owner_tick_primary_first[OF assms(1-5)] assms(7) by simp
  obtain restA where rA: "snd (tick e react d A) = HandleRenderAddition mA # restA"
      "\<forall>a\<in>set restA. \<not> is_dispatch a"
    using tick_secondary[OF assms(1), of e react d] assms(7) by auto
  obtain restB where rB: "snd (tick e react d B) = HandleRender ?m # restB"
      "\<forall>a\<in>set restB. \<not> is_dispatch a"
    using tick_primary[OF assms(3,5), of react d] by auto
  have roles: "\<not> handleChildren ?A'" "\<not> additionListener ?A'"
              "handleChildren ?B2" "additionListener ?B2"
    using assms(1-4) by (simp_all add: tick_keeps addition_roles)
  have ex2: "extraContent ?B2 = Some (merge_into mA [])"
    using tick_extraContent[OF assms(3), of e react d]
    by (cases "extraContent B") (simp_all add: addition_roles)
  let ?m' = "merge_into (merge_into mA []) (obj_put ''delta'' (JNum d') (renderMessage ?B2))"
  have ot2: "owner_tick e react d' [1, 0] [?A', ?B2] =
           ([fst (tick e react d' ?A'),
             handle_render_addition (obj_put ''delta'' (JNum d') (renderMessage ?A'))
               (fst (tick e react d' ?B2))],
            [(1, snd (tick e react d' ?B2)), (0, snd (tick e react d' ?A'))])"
    by (rule owner_tick_primary_first[OF roles assms(5)])
  obtain restA' where rA': "snd (tick e react d' ?A') =
        HandleRenderAddition (obj_put ''delta'' (JNum d') (renderMessage ?A')) # restA'"
    using tick_secondary[OF roles(1), of e react d'] by auto
  obtain restB' where rB': "snd (tick e react d' ?B2) = HandleRender ?m' # restB'"
    using tick_primary[OF roles(3) assms(5), of react d'] ex2 by auto
  have dA: "distinct (obj_keys mA)"
    using assms(6,7) by (simp add: distinct_obj_put)
  have c: "\<forall>k v. obj_get mA k = Some v \<longrightarrow> obj_get ?m' k = Some v"
    using merged_carries[OF dA, of "[]"] by (simp add: obj_keys_def)
  have next_tick: "\<exists>hs'' m' restB' mA' restA'.
               owner_tick e react d' [1, 0] [?A', ?B2] =
                 (hs'', [(1, HandleRender m' # restB'), (0, HandleRenderAddition mA' # restA')])
             \<and> (\<forall>k v. obj_get mA k = Some v \<longrightarrow> obj_get m' k = Some v)"
    using ot2 rA' rB' c
    by (intro exI[of _ "[fst (tick e react d' ?A'),
             handle_render_addition (obj_put ''delta'' (JNum d') (renderMessage ?A'))
               (fst (tick e react d' ?B2))]"] exI[of _ ?m'] exI[of _ restB']
            exI[of _ "obj_put ''delta'' (JNum d') (renderMessage ?A')"] exI[of _ restA']) simp
  show ?thesis
    using ot rA rB next_tick
    by (intro exI[of _ "[?A', ?B2]"] exI[of _ ?m] exI[of _ restB] exI[of _ restA]) auto
qed

text \<open>
  C4 (amended). Of two render handlers on one owner, loaded, where the type of the
  later-attached one starts with \<open>handler-render\<close>, the earlier one is secondary and the
  later one primary: in an owner tick only the primary dispatches \<open>handle-render\<close>, once,
  and the secondary triggers \<open>handle-render-addition\<close> with its render message \<open>mA\<close>.
  The keys of \<open>mA\<close> are in the message of the primary's next dispatch after that trigger.
  When the owner calls the secondary's tick listener before the primary's (attachment
  order), that dispatch is in the same tick. When it calls the primary's first, the
  message dispatched in that tick holds only what was pending before, and the keys of
  \<open>mA\<close> are in the message dispatched on the next tick.
\<close>

theorem addition_reaches_next_dispatch:
  assumes "\<not> handleChildren A" and "\<not> additionListener A"
      and "handleChildren B" and "additionListener B" and "canBroadcast e"
      and "distinct (obj_keys (renderMessage A))"
      and "case extraContent B of None \<Rightarrow> True | Some ex \<Rightarrow> distinct (obj_keys ex)"
      and "mA = obj_put ''delta'' (JNum d) (renderMessage A)"
  shows "(take 14 tyB = ''handler-render'' \<longrightarrow>
            map handleChildren
              (load 1 (load 0 [constructor tyA sa aa ia, constructor tyB sb ab ib])) = [False, True]
          \<and> map additionListener
              (load 1 (load 0 [constructor tyA sa aa ia, constructor tyB sb ab ib])) = [False, True])
       \<and> (\<exists>hs' restA m restB.
             owner_tick e react d [0, 1] [A, B] =
               (hs', [(0, HandleRenderAddition mA # restA), (1, HandleRender m # restB)])
           \<and> (\<forall>a\<in>set (restA @ restB). \<not> is_dispatch a)
           \<and> (\<forall>k v. obj_get mA k = Some v \<longrightarrow> obj_get m k = Some v))
       \<and> (\<exists>hs' m restB restA.
             owner_tick e react d [1, 0] [A, B] =
               (hs', [(1, HandleRender m # restB), (0, HandleRenderAddition mA # restA)])
           \<and> (\<forall>a\<in>set (restA @ restB). \<not> is_dispatch a)
           \<and> m = (case extraContent B of
                    None \<Rightarrow> obj_put ''delta'' (JNum d) (renderMessage B)
                  | Some ex \<Rightarrow> merge_into ex (obj_put ''delta'' (JNum d) (renderMessage B)))
           \<and> (\<exists>hs'' m' restB' mA' restA'.
                 owner_tick e react d' [1, 0] hs' =
                   (hs'', [(1, HandleRender m' # restB'), (0, HandleRenderAddition mA' # restA')])
               \<and> (\<forall>k v. obj_get mA k = Some v \<longrightarrow> obj_get m' k = Some v)))"
proof -
  have l: "take 14 tyB = ''handler-render'' \<longrightarrow>
            map handleChildren
              (load 1 (load 0 [constructor tyA sa aa ia, constructor tyB sb ab ib])) = [False, True]
          \<and> map additionListener
              (load 1 (load 0 [constructor tyA sa aa ia, constructor tyB sb ab ib])) = [False, True]"
    using load_roles[of "constructor tyB sb ab ib" "constructor tyA sa aa ia"]
    by (simp add: constructor_def)
  show ?thesis
    using l secondary_first_same_tick[OF assms, of react]
          primary_first_next_tick[OF assms(1-6,8), of react d']
    by (intro conjI)
qed

lemma two_handlers_fields:
  "two_handlers = [first_attached, later_attached]"
  "handleChildren first_attached = False" "additionListener first_attached = False"
  "handleChildren later_attached = True" "additionListener later_attached = True"
  "renderMessage first_attached = [(''delta'', JNum 0), (''stage'', JStage 1)]"
  "renderMessage later_attached = [(''delta'', JNum 0), (''stage'', JStage 2)]"
  "extraContent first_attached = None" "extraContent later_attached = None"
  "stage first_attached = Some (new_stage 1 False)" "stage later_attached = Some (new_stage 2 False)"
  "paused first_attached = None" "paused later_attached = None"
  by (simp_all add: first_attached_def later_attached_def two_handlers_def load_def constructor_def)

lemmas tick_eval = tick_def tick_begin_def tick_dispatch_def tick_stage_def tick_pause_def
  cull_pass_def new_stage_def plain_env_def no_reaction_def handle_render_addition_def
  deliver_addition_def obj_keys_def Let_def

lemma two_handlers_secondary_first:
  "owner_tick plain_env no_reaction 16 [0, 1] two_handlers =
     ([first_attached\<lparr>renderMessage := [(''delta'', JNum 16), (''stage'', JStage 1)]\<rparr>,
       later_attached\<lparr>renderMessage := [], extraContent := Some []\<rparr>],
      [(0, [HandleRenderAddition [(''delta'', JNum 16), (''stage'', JStage 1)],
            TimeElapsed ''Render-Prep'', StageUpdate, TimeElapsed ''Render'']),
       (1, [HandleRender [(''delta'', JNum 16), (''stage'', JStage 1)],
            TimeElapsed ''Render-Prep'', StageUpdate, TimeElapsed ''Render''])])"
  by (simp add: two_handlers_fields tick_eval)


lemma two_handlers_primary_first:
  "owner_tick plain_env no_reaction 16 [1, 0] two_handlers =
     ([first_attached\<lparr>renderMessage := [(''delta'', JNum 16), (''stage'', JStage 1)]\<rparr>,
       later_attached\<lparr>renderMessage := [(''delta'', JNum 16), (''stage'', JStage 2)],
                      extraContent := Some [(''delta'', JNum 16), (''stage'', JStage 1)]\<rparr>],
      [(1, [HandleRender [(''delta'', JNum 16), (''stage'', JStage 2)],
            TimeElapsed ''Render-Prep'', StageUpdate, TimeElapsed ''Render'']),
       (0, [HandleRenderAddition [(''delta'', JNum 16), (''stage'', JStage 1)],
            TimeElapsed ''Render-Prep'', StageUpdate, TimeElapsed ''Render''])])"
  by (simp add: two_handlers_fields tick_eval)

lemma two_handlers_primary_first_next:
  "snd (owner_tick plain_env no_reaction 17 [1, 0]
          (fst (owner_tick plain_env no_reaction 16 [1, 0] two_handlers))) =
      [(1, [HandleRender [(''delta'', JNum 16), (''stage'', JStage 1)],
            TimeElapsed ''Render-Prep'', StageUpdate, TimeElapsed ''Render'']),
       (0, [HandleRenderAddition [(''delta'', JNum 17), (''stage'', JStage 1)],
            TimeElapsed ''Render-Prep'', StageUpdate, TimeElapsed ''Render''])]"
  unfolding two_handlers_primary_first by (simp add: two_handlers_fields tick_eval)

theorem addition_reaches_next_dispatch_witness:
  "map handleChildren two_handlers = [False, True]
   \<and> (\<exists>hs' restA m restB.
         owner_tick plain_env no_reaction 16 [0, 1] two_handlers =
           (hs', [(0, HandleRenderAddition [(''delta'', JNum 16), (''stage'', JStage 1)] # restA),
                  (1, HandleRender m # restB)])
       \<and> obj_get m ''stage'' = Some (JStage 1))
   \<and> (\<exists>hs' m restB restA.
         owner_tick plain_env no_reaction 16 [1, 0] two_handlers =
           (hs', [(1, HandleRender m # restB),
                  (0, HandleRenderAddition [(''delta'', JNum 16), (''stage'', JStage 1)] # restA)])
       \<and> m = [(''delta'', JNum 16), (''stage'', JStage 2)]
       \<and> (\<exists>hs'' m' restB' mA' restA'.
             owner_tick plain_env no_reaction 17 [1, 0] hs' =
               (hs'', [(1, HandleRender m' # restB'), (0, HandleRenderAddition mA' # restA')])
           \<and> obj_get m' ''stage'' = Some (JStage 1)))"
proof -
  let ?mA = "[(''delta'', JNum 16), (''stage'', JStage 1)]"
  have mA: "?mA = obj_put ''delta'' (JNum 16) (renderMessage first_attached)"
    by (simp add: two_handlers_fields)
  have g: "obj_get ?mA ''stage'' = Some (JStage 1)" by (simp add: obj_get_def)
  have k: "distinct (obj_keys (renderMessage first_attached))"
    by (simp add: two_handlers_fields obj_keys_def)
  have x: "case extraContent later_attached of None \<Rightarrow> True | Some ex \<Rightarrow> distinct (obj_keys ex)"
    by (simp add: two_handlers_fields)
  have r: "\<not> handleChildren first_attached" "\<not> additionListener first_attached"
          "handleChildren later_attached" "additionListener later_attached"
          "canBroadcast plain_env"
    by (simp_all add: two_handlers_fields plain_env_def)
  note T = addition_reaches_next_dispatch[OF r k x mA,
             where react = no_reaction and d' = 17 and tyA = "''handler-render-createjs''"
               and tyB = "''handler-render-createjs''" and sa = 1 and sb = 2
               and aa = False and ab = False and ia = None and ib = None]
  have 1: "map handleChildren two_handlers = [False, True]"
    using T by (simp add: two_handlers_def)
  have 2: "\<exists>hs' restA m restB.
         owner_tick plain_env no_reaction 16 [0, 1] two_handlers =
           (hs', [(0, HandleRenderAddition ?mA # restA), (1, HandleRender m # restB)])
       \<and> obj_get m ''stage'' = Some (JStage 1)"
    using T g unfolding two_handlers_fields(1) by blast
  have 3: "\<exists>hs' m restB restA.
         owner_tick plain_env no_reaction 16 [1, 0] two_handlers =
           (hs', [(1, HandleRender m # restB), (0, HandleRenderAddition ?mA # restA)])
       \<and> m = [(''delta'', JNum 16), (''stage'', JStage 2)]
       \<and> (\<exists>hs'' m' restB' mA' restA'.
             owner_tick plain_env no_reaction 17 [1, 0] hs' =
               (hs'', [(1, HandleRender m' # restB'), (0, HandleRenderAddition mA' # restA')])
           \<and> obj_get m' ''stage'' = Some (JStage 1))"
  proof -
    from T obtain hs' m restB restA where
        o: "owner_tick plain_env no_reaction 16 [1, 0] [first_attached, later_attached] =
              (hs', [(1, HandleRender m # restB), (0, HandleRenderAddition ?mA # restA)])"
      and m: "m = (case extraContent later_attached of
                    None \<Rightarrow> obj_put ''delta'' (JNum 16) (renderMessage later_attached)
                  | Some ex \<Rightarrow> merge_into ex (obj_put ''delta'' (JNum 16) (renderMessage later_attached)))"
      and n: "\<exists>hs'' m' restB' mA' restA'.
                 owner_tick plain_env no_reaction 17 [1, 0] hs' =
                   (hs'', [(1, HandleRender m' # restB'), (0, HandleRenderAddition mA' # restA')])
               \<and> (\<forall>k v. obj_get ?mA k = Some v \<longrightarrow> obj_get m' k = Some v)"
      by blast
    have m': "m = [(''delta'', JNum 16), (''stage'', JStage 2)]"
      using m by (simp add: two_handlers_fields)
    from n g have "\<exists>hs'' m' restB' mA' restA'.
             owner_tick plain_env no_reaction 17 [1, 0] hs' =
               (hs'', [(1, HandleRender m' # restB'), (0, HandleRenderAddition mA' # restA')])
           \<and> obj_get m' ''stage'' = Some (JStage 1)"
      by blast
    then show ?thesis using o m' unfolding two_handlers_fields(1) by blast
  qed
  show ?thesis using 1 2 3 by (intro conjI)
qed

theorem same_tick_addition_counterexample:
  "map renderMessage two_handlers =
     [[(''delta'', JNum 0), (''stage'', JStage 1)], [(''delta'', JNum 0), (''stage'', JStage 2)]]
   \<and> snd (owner_tick plain_env no_reaction 16 [0, 1] two_handlers) =
      [(0, [HandleRenderAddition [(''delta'', JNum 16), (''stage'', JStage 1)],
            TimeElapsed ''Render-Prep'', StageUpdate, TimeElapsed ''Render'']),
       (1, [HandleRender [(''delta'', JNum 16), (''stage'', JStage 1)],
            TimeElapsed ''Render-Prep'', StageUpdate, TimeElapsed ''Render''])]"
  unfolding two_handlers_secondary_first by (simp add: two_handlers_fields)

text \<open>
  C2. The claim fails on the code: when the pending extra content is the render message
  of a secondary handler, its keys are \<open>delta\<close> and \<open>stage\<close>, and the cleanup after the
  dispatch deletes them from the primary's render message with the rest. After the
  owner tick below the render message of the primary handler is empty.
\<close>

theorem render_message_loses_base_fields:
  "map renderMessage two_handlers =
     [[(''delta'', JNum 0), (''stage'', JStage 1)], [(''delta'', JNum 0), (''stage'', JStage 2)]]
   \<and> map renderMessage (fst (owner_tick plain_env no_reaction 16 [0, 1] two_handlers)) =
     [[(''delta'', JNum 16), (''stage'', JStage 1)], []]
   \<and> map extraContent (fst (owner_tick plain_env no_reaction 16 [0, 1] two_handlers)) =
     [None, Some []]"
  unfolding two_handlers_secondary_first by (simp add: two_handlers_fields)

end
